theory Spec2Isabelle
  imports Complex_Main "HOL-Library.Sublist"
begin

text \<open>
  A shallow embedding of the blog core of the site: the pipeline from a Markdown file to
  a post (\<^verbatim>\<open>BlogUtils.ts\<close>, \<^verbatim>\<open>blog.config.ts\<close>), the search filter, the pagination
  and the effects that load posts (\<^verbatim>\<open>BlogCore.tsx\<close>), and the fallback slug function of
  the sitemap script. The definitions come first, file by file; the properties follow.
\<close>

section \<open>JavaScript strings and arrays\<close>

text \<open>
  Strings are modelled as \<^typ>\<open>string\<close>, one \<^typ>\<open>char\<close> per code unit: the model
  covers the texts whose code units lie between U+0000 and U+00FF. On these
  \<^verbatim>\<open>toLowerCase\<close> works code unit by code unit: it changes the letters \<^verbatim>\<open>A\<close> to
  \<^verbatim>\<open>Z\<close> and the letters U+00C0 to U+00DE (the multiplication sign U+00D7 is not a
  letter), each to the code unit 32 above it. The white space of \<^verbatim>\<open>trim\<close> and of the
  regular expression class \<^verbatim>\<open>\s\<close> is tab, line feed, vertical tab, form feed,
  carriage return, space and the no-break space U+00A0.
\<close>

definition isUpperLetter :: "char \<Rightarrow> bool" where
  "isUpperLetter c =
     ((65 \<le> (of_char c :: nat) \<and> (of_char c :: nat) \<le> 90) \<or>
      (192 \<le> (of_char c :: nat) \<and> (of_char c :: nat) \<le> 222 \<and> (of_char c :: nat) \<noteq> 215))"

definition toLowerChar :: "char \<Rightarrow> char" where
  "toLowerChar c = (if isUpperLetter c then char_of ((of_char c :: nat) + 32) else c)"

definition toLowerCase :: "string \<Rightarrow> string" where
  "toLowerCase s = map toLowerChar s"

definition isWhiteSpace :: "char \<Rightarrow> bool" where
  "isWhiteSpace c = ((of_char c :: nat) \<in> {9, 10, 11, 12, 13, 32, 160})"

definition trim :: "string \<Rightarrow> string" where
  "trim s = rev (dropWhile isWhiteSpace (rev (dropWhile isWhiteSpace s)))"

text \<open>\<^verbatim>\<open>s.includes(q)\<close>: \<open>q\<close> occurs in \<open>s\<close> as a contiguous substring.\<close>

fun includes_str :: "string \<Rightarrow> string \<Rightarrow> bool" where
  "includes_str [] q = (q = [])"
| "includes_str (c # cs) q = (prefix q (c # cs) \<or> includes_str cs q)"

text \<open>
  \<^verbatim>\<open>xs.slice(start, end)\<close> with integer arguments: a negative argument counts from
  the end, and both bounds are clamped to the array.
\<close>

definition slice :: "'a list \<Rightarrow> int \<Rightarrow> int \<Rightarrow> 'a list" where
  "slice xs start fin =
     (let len = int (length xs);
          k = (if start < 0 then max (len + start) 0 else min start len);
          final = (if fin < 0 then max (len + fin) 0 else min fin len)
      in take (nat (final - k)) (drop (nat k) xs))"

section \<open>The post type (BlogTypes)\<close>

text \<open>
  The optional fields \<^verbatim>\<open>excerpt\<close>, \<^verbatim>\<open>author\<close> and \<^verbatim>\<open>featuredImage\<close> are options;
  \<^verbatim>\<open>tags\<close> and \<^verbatim>\<open>meta\<close> are never written or read by the code modelled here.
\<close>

record BlogPost =
  title :: string
  slug :: string
  date :: string
  content :: string
  excerpt :: "string option"
  author :: "string option"
  featuredImage :: "string option"

section \<open>BlogList: search filter and pagination (BlogCore.tsx)\<close>

text \<open>
  The test \<^verbatim>\<open>post.excerpt && post.excerpt.toLowerCase().includes(query)\<close>: an absent
  field and the empty string are both falsy.
\<close>

definition fieldIncludes :: "string option \<Rightarrow> string \<Rightarrow> bool" where
  "fieldIncludes field query =
     (case field of None \<Rightarrow> False
      | Some v \<Rightarrow> v \<noteq> [] \<and> includes_str (toLowerCase v) query)"

definition postMatches :: "string \<Rightarrow> BlogPost \<Rightarrow> bool" where
  "postMatches query post =
     (includes_str (toLowerCase (title post)) query \<or>
      includes_str (toLowerCase (content post)) query \<or>
      fieldIncludes (excerpt post) query \<or>
      fieldIncludes (author post) query)"

definition filteredPosts :: "BlogPost list \<Rightarrow> string \<Rightarrow> BlogPost list" where
  "filteredPosts posts searchQuery =
     (if trim searchQuery = [] then posts
      else filter (postMatches (toLowerCase searchQuery)) posts)"

text \<open>
  The search rule in the words of the specification: the lower-cased query is a substring
  of the lower-cased title, content, excerpt (when present) or author (when present).
\<close>

definition spec_postKept :: "string \<Rightarrow> BlogPost \<Rightarrow> bool" where
  "spec_postKept q post =
     (includes_str (toLowerCase (title post)) (toLowerCase q) \<or>
      includes_str (toLowerCase (content post)) (toLowerCase q) \<or>
      (case excerpt post of None \<Rightarrow> False
       | Some e \<Rightarrow> includes_str (toLowerCase e) (toLowerCase q)) \<or>
      (case author post of None \<Rightarrow> False
       | Some a \<Rightarrow> includes_str (toLowerCase a) (toLowerCase q)))"

definition postsPerPage :: int where
  "postsPerPage = 30"

definition totalPages :: "'a list \<Rightarrow> int" where
  "totalPages fp = \<lceil>real (length fp) / real_of_int postsPerPage\<rceil>"

definition startIndex :: "int \<Rightarrow> int" where
  "startIndex currentPage = (currentPage - 1) * postsPerPage"

definition endIndex :: "int \<Rightarrow> int" where
  "endIndex currentPage = startIndex currentPage + postsPerPage"

definition currentPosts :: "'a list \<Rightarrow> int \<Rightarrow> 'a list" where
  "currentPosts fp currentPage = slice fp (startIndex currentPage) (endIndex currentPage)"

section \<open>Regular expressions (the subset of ECMAScript the code uses)\<close>

text \<open>
  The regular expressions of the source are written as terms of a small abstract syntax
  and run by a backtracking matcher that follows the matcher of the ECMAScript
  specification: alternatives are tried left to right, a greedy quantifier tries its body
  before what follows it and a lazy one afterwards, an iteration of a quantifier with
  minimum zero that consumes nothing fails, and the captures inside a quantified body
  are reset at each iteration.
\<close>

definition isLineTerminator :: "char \<Rightarrow> bool" where
  "isLineTerminator c = ((of_char c :: nat) \<in> {10, 13})"

datatype citem = Range char char | Space | NonSpace

datatype regex =
    Empty
  | Cls bool "citem list"
  | Seq regex regex
  | Alt regex regex
  | Rep bool nat "nat option" regex
  | Grp nat regex
  | Bol
  | Eol

text \<open>
  \<open>Cls neg items\<close> is a character class (\<open>neg\<close> for \<^verbatim>\<open>[^...]\<close>),
  \<open>Rep greedy min max r\<close> a quantifier (\<open>max = None\<close>: unbounded), \<open>Grp n r\<close> the
  capturing group number \<open>n\<close>, \<open>Bol\<close> and \<open>Eol\<close> the assertions \<^verbatim>\<open>^\<close> and \<^verbatim>\<open>$\<close>.
\<close>

record flags =
  ignoreCase :: bool
  multiline :: bool

fun inItem :: "char \<Rightarrow> citem \<Rightarrow> bool" where
  "inItem c (Range lo hi) =
     ((of_char lo :: nat) \<le> of_char c \<and> (of_char c :: nat) \<le> of_char hi)"
| "inItem c Space = isWhiteSpace c"
| "inItem c NonSpace = (\<not> isWhiteSpace c)"

text \<open>
  With the flag \<^verbatim>\<open>i\<close> characters are compared by their canonical forms
  (\<^verbatim>\<open>Canonicalize\<close> of the language specification): the upper-case form of the code
  unit when that is a single code unit. Among the code units of the model it maps
  \<^verbatim>\<open>a\<close> to \<^verbatim>\<open>z\<close> and U+00E0 to U+00FE (the division sign U+00F7 is not a letter), each
  to the code unit 32 below it. U+00DF, whose upper-case form is two code units, is its
  own canonical form; U+00B5 and U+00FF have canonical forms above U+00FF that no other
  code unit of the model shares, so within the model they are equivalent to themselves
  only, and \<open>canonicalize\<close> leaves them as they are.
\<close>

definition isLowerLetter :: "char \<Rightarrow> bool" where
  "isLowerLetter c =
     ((97 \<le> (of_char c :: nat) \<and> (of_char c :: nat) \<le> 122) \<or>
      (224 \<le> (of_char c :: nat) \<and> (of_char c :: nat) \<le> 254 \<and> (of_char c :: nat) \<noteq> 247))"

definition canonicalize :: "char \<Rightarrow> char" where
  "canonicalize c = (if isLowerLetter c then char_of ((of_char c :: nat) - 32) else c)"

text \<open>
  A character belongs to a class when some member of the class has the same canonical
  form; the characters with the canonical form of \<open>c\<close> are \<open>c\<close>, its lower-case form
  and its canonical form.
\<close>

definition classMatches :: "flags \<Rightarrow> bool \<Rightarrow> citem list \<Rightarrow> char \<Rightarrow> bool" where
  "classMatches f neg items c =
     (neg \<noteq>
       (if ignoreCase f
        then list_ex (\<lambda>i. inItem c i \<or> inItem (toLowerChar c) i \<or> inItem (canonicalize c) i) items
        else list_ex (inItem c) items))"

fun groups :: "regex \<Rightarrow> nat list" where
  "groups (Seq a b) = groups a @ groups b"
| "groups (Alt a b) = groups a @ groups b"
| "groups (Rep g mn mx r) = groups r"
| "groups (Grp n r) = n # groups r"
| "groups r = []"

type_synonym captures = "nat \<Rightarrow> (nat \<times> nat) option"

fun clear :: "nat list \<Rightarrow> captures \<Rightarrow> captures" where
  "clear [] cp = cp"
| "clear (n # ns) cp = clear ns (cp(n := None))"

text \<open>
  The continuation of the matcher is a stack of frames: a regular expression still to
  match, the end of a capturing group opened at a position, or the next iteration of a
  quantifier whose current iteration started at a position.
\<close>

datatype frame =
    Match regex
  | Close nat nat
  | Loop bool nat "nat option" regex nat

fun decr :: "nat option \<Rightarrow> nat option" where
  "decr None = None"
| "decr (Some m) = Some (m - 1)"

definition repWeight :: "nat \<Rightarrow> nat \<Rightarrow> nat" where
  "repWeight mn b = mn * (b + 2) + b + 1"

fun weight :: "regex \<Rightarrow> nat" where
  "weight (Seq a b) = weight a + weight b + 1"
| "weight (Alt a b) = weight a + weight b + 1"
| "weight (Rep g mn mx r) = repWeight mn (weight r)"
| "weight (Grp n r) = weight r + 2"
| "weight r = 1"

fun frameWeight :: "nat \<Rightarrow> frame \<Rightarrow> nat" where
  "frameWeight pos (Match r) = weight r"
| "frameWeight pos (Close n st) = 1"
| "frameWeight pos (Loop g mn mx r x) =
     (if mn = 0 \<and> pos = x then 0 else repWeight (mn - 1) (weight r) + 1)"

text \<open>
  \<open>run f s k pos rest cp\<close> matches the frames \<open>k\<close> against the input \<open>s\<close> from
  position \<open>pos\<close>, where \<open>rest\<close> is the input from \<open>pos\<close> on and \<open>cp\<close> the captures so
  far; it returns the end position and the captures of the first successful way to match,
  or \<open>None\<close>.
\<close>

function (sequential) run ::
  "flags \<Rightarrow> string \<Rightarrow> frame list \<Rightarrow> nat \<Rightarrow> string \<Rightarrow> captures \<Rightarrow> (nat \<times> captures) option"
where
  "run f s [] pos rest cp = Some (pos, cp)"
| "run f s (Match Empty # k) pos rest cp = run f s k pos rest cp"
| "run f s (Match (Cls neg items) # k) pos [] cp = None"
| "run f s (Match (Cls neg items) # k) pos (c # cs) cp =
     (if classMatches f neg items c then run f s k (Suc pos) cs cp else None)"
| "run f s (Match (Seq a b) # k) pos rest cp = run f s (Match a # Match b # k) pos rest cp"
| "run f s (Match (Alt a b) # k) pos rest cp =
     (case run f s (Match a # k) pos rest cp of
        Some z \<Rightarrow> Some z
      | None \<Rightarrow> run f s (Match b # k) pos rest cp)"
| "run f s (Match (Grp n r) # k) pos rest cp =
     run f s (Match r # Close n pos # k) pos rest cp"
| "run f s (Close n st # k) pos rest cp = run f s k pos rest (cp(n \<mapsto> (st, pos)))"
| "run f s (Match Bol # k) pos rest cp =
     (if pos = 0 \<or> (multiline f \<and> isLineTerminator (s ! (pos - 1)))
      then run f s k pos rest cp else None)"
| "run f s (Match Eol # k) pos rest cp =
     (if rest = [] \<or> (multiline f \<and> isLineTerminator (hd rest))
      then run f s k pos rest cp else None)"
| "run f s (Match (Rep g mn mx r) # k) pos rest cp =
     (if mx = Some 0 then run f s k pos rest cp
      else if 0 < mn then
        run f s (Match r # Loop g mn mx r pos # k) pos rest (clear (groups r) cp)
      else if g then
        (case run f s (Match r # Loop g mn mx r pos # k) pos rest (clear (groups r) cp) of
           Some z \<Rightarrow> Some z
         | None \<Rightarrow> run f s k pos rest cp)
      else
        (case run f s k pos rest cp of
           Some z \<Rightarrow> Some z
         | None \<Rightarrow>
             run f s (Match r # Loop g mn mx r pos # k) pos rest (clear (groups r) cp)))"
| "run f s (Loop g mn mx r x # k) pos rest cp =
     (if mn = 0 \<and> pos = x then None
      else run f s (Match (Rep g (mn - 1) (decr mx) r) # k) pos rest cp)"
  by pat_completeness auto

termination
  by (relation "measures [\<lambda>(f, s, k, pos, rest, cp). length rest,
                          \<lambda>(f, s, k, pos, rest, cp). sum_list (map (frameWeight pos) k)]")
     (auto simp: repWeight_def mult_eq_if)

subsection \<open>Notation of the source's regular expressions\<close>

abbreviation NL :: char where "NL \<equiv> CHR 0x0A"
abbreviation CR :: char where "CR \<equiv> CHR 0x0D"
abbreviation DQ :: char where "DQ \<equiv> CHR 0x22"
abbreviation SQ :: char where "SQ \<equiv> CHR 0x27"

definition oneOf :: "string \<Rightarrow> citem list" where
  "oneOf cs = map (\<lambda>c. Range c c) cs"

definition reChar :: "char \<Rightarrow> regex" where
  "reChar c = Cls False [Range c c]"

definition reSeq :: "regex list \<Rightarrow> regex" where
  "reSeq rs = foldr Seq rs Empty"

definition reStr :: "string \<Rightarrow> regex" where
  "reStr s = reSeq (map reChar s)"

fun reAlt :: "regex list \<Rightarrow> regex" where
  "reAlt [] = Cls False []"
| "reAlt [r] = r"
| "reAlt (r # rs) = Alt r (reAlt rs)"

text \<open>\<^verbatim>\<open>.\<close> matches every character but a line terminator.\<close>

definition reDot :: regex where
  "reDot = Cls True [Range NL NL, Range CR CR]"

definition reSpace :: regex where
  "reSpace = Cls False [Space]"

definition reStar :: "regex \<Rightarrow> regex" where
  "reStar r = Rep True 0 None r"

definition reLazyStar :: "regex \<Rightarrow> regex" where
  "reLazyStar r = Rep False 0 None r"

definition rePlus :: "regex \<Rightarrow> regex" where
  "rePlus r = Rep True 1 None r"

definition reLazyPlus :: "regex \<Rightarrow> regex" where
  "reLazyPlus r = Rep False 1 None r"

definition reOpt :: "regex \<Rightarrow> regex" where
  "reOpt r = Rep True 0 (Some 1) r"

definition reTimes :: "nat \<Rightarrow> regex \<Rightarrow> regex" where
  "reTimes n r = Rep True n (Some n) r"

definition noFlags :: flags where
  "noFlags = \<lparr>ignoreCase = False, multiline = False\<rparr>"

definition flagI :: flags where
  "flagI = \<lparr>ignoreCase = True, multiline = False\<rparr>"

definition flagM :: flags where
  "flagM = \<lparr>ignoreCase = False, multiline = True\<rparr>"

subsection \<open>Searching and replacing\<close>

record rmatch =
  m_index :: nat
  m_end :: nat
  m_caps :: captures

text \<open>The first position from \<open>pos\<close> on at which the expression matches.\<close>

fun search :: "flags \<Rightarrow> regex \<Rightarrow> string \<Rightarrow> nat \<Rightarrow> string \<Rightarrow> rmatch option" where
  "search f re s pos [] =
     (case run f s [Match re] pos [] Map.empty of
        Some (e, cp) \<Rightarrow> Some \<lparr>m_index = pos, m_end = e, m_caps = cp\<rparr>
      | None \<Rightarrow> None)"
| "search f re s pos (c # cs) =
     (case run f s [Match re] pos (c # cs) Map.empty of
        Some (e, cp) \<Rightarrow> Some \<lparr>m_index = pos, m_end = e, m_caps = cp\<rparr>
      | None \<Rightarrow> search f re s (Suc pos) cs)"

text \<open>\<^verbatim>\<open>s.match(re)\<close> for an expression without the flag \<^verbatim>\<open>g\<close>.\<close>

definition regexMatch :: "flags \<Rightarrow> regex \<Rightarrow> string \<Rightarrow> rmatch option" where
  "regexMatch f re s = search f re s 0 s"

definition substr :: "string \<Rightarrow> nat \<Rightarrow> nat \<Rightarrow> string" where
  "substr s a b = take (b - a) (drop a s)"

text \<open>The matched text \<^verbatim>\<open>m[0]\<close> and the capture \<^verbatim>\<open>m[n]\<close> (\<open>None\<close>: undefined).\<close>

definition matched :: "string \<Rightarrow> rmatch \<Rightarrow> string" where
  "matched s m = substr s (m_index m) (m_end m)"

definition capture :: "string \<Rightarrow> rmatch \<Rightarrow> nat \<Rightarrow> string option" where
  "capture s m n = (case m_caps m n of None \<Rightarrow> None | Some (a, b) \<Rightarrow> Some (substr s a b))"

text \<open>A capture passed to a callback and interpolated into a template literal.\<close>

definition captureStr :: "string \<Rightarrow> rmatch \<Rightarrow> nat \<Rightarrow> string" where
  "captureStr s m n = (case capture s m n of None \<Rightarrow> ''undefined'' | Some g \<Rightarrow> g)"

text \<open>
  \<^verbatim>\<open>s.replace(re, repl)\<close> for an expression with the flag \<^verbatim>\<open>g\<close>: the matches are
  found from left to right, each search starting where the previous match ended (one
  character further after an empty match). \<open>skip\<close> counts the characters of the last
  match still to pass over.
\<close>

fun replaceLoop ::
  "flags \<Rightarrow> regex \<Rightarrow> string \<Rightarrow> (rmatch \<Rightarrow> string) \<Rightarrow> nat \<Rightarrow> string \<Rightarrow> nat \<Rightarrow> string" where
  "replaceLoop f re s repl pos [] skip =
     (if 0 < skip then []
      else case run f s [Match re] pos [] Map.empty of
             None \<Rightarrow> []
           | Some (e, cp) \<Rightarrow> repl \<lparr>m_index = pos, m_end = e, m_caps = cp\<rparr>)"
| "replaceLoop f re s repl pos (c # cs) skip =
     (if 0 < skip then replaceLoop f re s repl (Suc pos) cs (skip - 1)
      else case run f s [Match re] pos (c # cs) Map.empty of
             None \<Rightarrow> c # replaceLoop f re s repl (Suc pos) cs 0
           | Some (e, cp) \<Rightarrow>
               repl \<lparr>m_index = pos, m_end = e, m_caps = cp\<rparr> @
               (if e = pos then c # replaceLoop f re s repl (Suc pos) cs 0
                else replaceLoop f re s repl (Suc pos) cs (e - pos - 1)))"

definition replaceAll :: "flags \<Rightarrow> regex \<Rightarrow> string \<Rightarrow> (rmatch \<Rightarrow> string) \<Rightarrow> string" where
  "replaceAll f re s repl = replaceLoop f re s repl 0 s 0"

text \<open>\<^verbatim>\<open>s.replace(re, repl)\<close> for an expression without the flag \<^verbatim>\<open>g\<close>.\<close>

definition replaceFirst :: "flags \<Rightarrow> regex \<Rightarrow> string \<Rightarrow> (rmatch \<Rightarrow> string) \<Rightarrow> string" where
  "replaceFirst f re s repl =
     (case regexMatch f re s of
        None \<Rightarrow> s
      | Some m \<Rightarrow> take (m_index m) s @ repl m @ drop (m_end m) s)"

text \<open>
  A replacement string is a template: \<^verbatim>\<open>$$\<close> stands for a dollar sign, \<^verbatim>\<open>$&\<close> for the
  matched text, \<^verbatim>\<open>$`\<close> and \<^verbatim>\<open>$'\<close> for the text before and after the match, and
  \<^verbatim>\<open>$n\<close> or \<^verbatim>\<open>$nn\<close> for the capture of that number when the expression has that many
  capturing groups \<open>ng\<close>; every other use of the dollar sign is copied as it is.
\<close>

definition isDigit :: "char \<Rightarrow> bool" where
  "isDigit c = (48 \<le> (of_char c :: nat) \<and> (of_char c :: nat) \<le> 57)"

definition digitVal :: "char \<Rightarrow> nat" where
  "digitVal c = (of_char c :: nat) - 48"

definition captureOrEmpty :: "string \<Rightarrow> rmatch \<Rightarrow> nat \<Rightarrow> string" where
  "captureOrEmpty s m n = (case capture s m n of None \<Rightarrow> [] | Some g \<Rightarrow> g)"

fun getSubstitution :: "nat \<Rightarrow> string \<Rightarrow> rmatch \<Rightarrow> string \<Rightarrow> string" where
  "getSubstitution ng s m [] = []"
| "getSubstitution ng s m [c] = [c]"
| "getSubstitution ng s m (c # d # t) =
     (if c \<noteq> CHR ''$'' then c # getSubstitution ng s m (d # t)
      else if d = CHR ''$'' then CHR ''$'' # getSubstitution ng s m t
      else if d = CHR ''&'' then matched s m @ getSubstitution ng s m t
      else if d = CHR ''`'' then take (m_index m) s @ getSubstitution ng s m t
      else if d = SQ then drop (m_end m) s @ getSubstitution ng s m t
      else if isDigit d then
        (case t of
           e # t' \<Rightarrow>
             if isDigit e \<and> 1 \<le> 10 * digitVal d + digitVal e \<and> 10 * digitVal d + digitVal e \<le> ng
             then captureOrEmpty s m (10 * digitVal d + digitVal e) @ getSubstitution ng s m t'
             else if 1 \<le> digitVal d \<and> digitVal d \<le> ng
             then captureOrEmpty s m (digitVal d) @ getSubstitution ng s m t
             else c # getSubstitution ng s m (d # t)
         | [] \<Rightarrow>
             if 1 \<le> digitVal d \<and> digitVal d \<le> ng
             then captureOrEmpty s m (digitVal d)
             else [c, d])
      else c # getSubstitution ng s m (d # t))"

definition replaceAllStr :: "flags \<Rightarrow> regex \<Rightarrow> string \<Rightarrow> string \<Rightarrow> string" where
  "replaceAllStr f re s template =
     replaceAll f re s (\<lambda>m. getSubstitution (length (groups re)) s m template)"

definition replaceFirstStr :: "flags \<Rightarrow> regex \<Rightarrow> string \<Rightarrow> string \<Rightarrow> string" where
  "replaceFirstStr f re s template =
     replaceFirst f re s (\<lambda>m. getSubstitution (length (groups re)) s m template)"

subsection \<open>String methods\<close>

text \<open>\<^verbatim>\<open>s.indexOf(q)\<close>, with \<open>None\<close> for \<open>-1\<close>.\<close>

fun indexOf :: "string \<Rightarrow> string \<Rightarrow> nat option" where
  "indexOf [] q = (if q = [] then Some 0 else None)"
| "indexOf (c # cs) q =
     (if prefix q (c # cs) then Some 0
      else case indexOf cs q of None \<Rightarrow> None | Some i \<Rightarrow> Some (Suc i))"

text \<open>
  \<^verbatim>\<open>s.replace(pattern, template)\<close> with a string pattern: the first occurrence is
  replaced, and the template is expanded as for an expression without groups.
\<close>

definition replaceString :: "string \<Rightarrow> string \<Rightarrow> string \<Rightarrow> string" where
  "replaceString s pat template =
     (case indexOf s pat of
        None \<Rightarrow> s
      | Some i \<Rightarrow>
          take i s @
          getSubstitution 0 s \<lparr>m_index = i, m_end = i + length pat, m_caps = Map.empty\<rparr> template @
          drop (i + length pat) s)"

definition startsWith :: "string \<Rightarrow> string \<Rightarrow> bool" where
  "startsWith s q = prefix q s"

text \<open>\<^verbatim>\<open>s.lastIndexOf(c)\<close> for a single character, \<open>-1\<close> when it does not occur.\<close>

fun lastIndexFrom :: "string \<Rightarrow> char \<Rightarrow> int \<Rightarrow> int \<Rightarrow> int" where
  "lastIndexFrom [] c pos found = found"
| "lastIndexFrom (x # xs) c pos found =
     lastIndexFrom xs c (pos + 1) (if x = c then pos else found)"

definition lastIndexOf :: "string \<Rightarrow> char \<Rightarrow> int" where
  "lastIndexOf s c = lastIndexFrom s c 0 (- 1)"

text \<open>
  \<^verbatim>\<open>s.substring(a, b)\<close>: both arguments are clamped to the string, and exchanged when
  the first is the larger.
\<close>

definition substring :: "string \<Rightarrow> int \<Rightarrow> int \<Rightarrow> string" where
  "substring s a b =
     substr s (nat (min (max (min a b) 0) (int (length s))))
              (nat (min (max (max a b) 0) (int (length s))))"

text \<open>\<^verbatim>\<open>s.split(c)\<close> for a one-character separator, and \<^verbatim>\<open>parts.join(sep)\<close>.\<close>

fun splitOn :: "char \<Rightarrow> string \<Rightarrow> string list" where
  "splitOn sep [] = [[]]"
| "splitOn sep (c # cs) =
     (if c = sep then [] # splitOn sep cs
      else case splitOn sep cs of
             [] \<Rightarrow> [[c]]
           | p # ps \<Rightarrow> (c # p) # ps)"

fun join :: "string \<Rightarrow> string list \<Rightarrow> string" where
  "join sep [] = []"
| "join sep [p] = p"
| "join sep (p # ps) = p @ sep @ join sep ps"

section \<open>blog.config.ts: generateMetaDescription\<close>

text \<open>\<^verbatim>\<open>/!\[.*?\]\(.*?\)/g\<close>\<close>

definition re_image :: regex where
  "re_image = reSeq [reStr ''!['', reLazyStar reDot, reStr '']('', reLazyStar reDot, reChar (CHR '')'')]"

text \<open>\<^verbatim>\<open>/\[.*?\]\(.*?\)/g\<close>\<close>

definition re_link :: regex where
  "re_link = reSeq [reChar (CHR ''[''), reLazyStar reDot, reStr '']('', reLazyStar reDot, reChar (CHR '')'')]"

text \<open>\<^verbatim>\<open>/[#*_~`]/g\<close>\<close>

definition re_markup :: regex where
  "re_markup = Cls False (oneOf ''#*_~`'')"

text \<open>\<^verbatim>\<open>/<[^>]*>/g\<close>\<close>

definition re_tag :: regex where
  "re_tag = reSeq [reChar (CHR ''<''), reStar (Cls True (oneOf ''>'')), reChar (CHR ''>'')]"

text \<open>\<^verbatim>\<open>/\n+/g\<close> and \<^verbatim>\<open>/\s+/g\<close>\<close>

definition re_newlines :: regex where
  "re_newlines = rePlus (reChar NL)"

definition re_spaces :: regex where
  "re_spaces = rePlus reSpace"

definition plainText :: "string \<Rightarrow> string" where
  "plainText content' =
     trim
      (replaceAllStr noFlags re_spaces
        (replaceAllStr noFlags re_newlines
          (replaceAllStr noFlags re_tag
            (replaceAllStr noFlags re_markup
              (replaceAllStr noFlags re_link
                (replaceAllStr noFlags re_image content' [])
                ''$1'')
              [])
            [])
          '' '')
        '' '')"

definition generateMetaDescription :: "string \<Rightarrow> string" where
  "generateMetaDescription content' =
     (let truncated = substring (plainText content') 0 160
      in substring truncated 0 (lastIndexOf truncated (CHR '' '')) @ ''...'')"

text \<open>
  The plain text in the words of the specification differs from \<^const>\<open>plainText\<close> in
  one step: a link is replaced by its text, the part between the square brackets.
\<close>

definition re_link_text :: regex where
  "re_link_text =
     reSeq [reChar (CHR ''[''), Grp 1 (reLazyStar reDot), reStr '']('', reLazyStar reDot,
            reChar (CHR '')'')]"

definition spec_plainText :: "string \<Rightarrow> string" where
  "spec_plainText content' =
     trim
      (replaceAllStr noFlags re_spaces
        (replaceAllStr noFlags re_newlines
          (replaceAllStr noFlags re_tag
            (replaceAllStr noFlags re_markup
              (replaceAllStr noFlags re_link_text
                (replaceAllStr noFlags re_image content' [])
                ''$1'')
              [])
            [])
          '' '')
        '' '')"

section \<open>BlogUtils.ts\<close>

subsection \<open>extractFirstImage\<close>

text \<open>\<^verbatim>\<open>/!\[.*?\]\((.*?)\)/\<close>\<close>

definition markdownImageRegex :: regex where
  "markdownImageRegex =
     reSeq [reStr ''!['', reLazyStar reDot, reStr '']('', Grp 1 (reLazyStar reDot), reChar (CHR '')'')]"

definition imageExtension :: regex where
  "imageExtension = reAlt [reStr ''jpg'', reStr ''jpeg'', reStr ''png'', reStr ''gif'', reStr ''webp'']"

text \<open>\<^verbatim>\<open>/(https?:\/\/.*?\.(jpg|jpeg|png|gif|webp))/i\<close>\<close>

definition directImageUrlRegex :: regex where
  "directImageUrlRegex =
     Grp 1 (reSeq [reStr ''http'', reOpt (reChar (CHR ''s'')), reStr ''://'', reLazyStar reDot,
                   reChar (CHR ''.''), Grp 2 imageExtension])"

text \<open>\<^verbatim>\<open>/<img.*?src=["'](.*?)["']/\<close>\<close>

definition htmlImageRegex :: regex where
  "htmlImageRegex =
     reSeq [reStr ''<img'', reLazyStar reDot, reStr ''src='', Cls False (oneOf [DQ, SQ]),
            Grp 1 (reLazyStar reDot), Cls False (oneOf [DQ, SQ])]"

text \<open>
  The test \<^verbatim>\<open>m && m[n]\<close> followed by \<^verbatim>\<open>return m[n]\<close>: the capture \<open>n\<close> of the first
  match, when there is a match and the capture is a non-empty string.
\<close>

definition matchGroup :: "flags \<Rightarrow> regex \<Rightarrow> string \<Rightarrow> nat \<Rightarrow> string option" where
  "matchGroup f re s n =
     (case regexMatch f re s of
        None \<Rightarrow> None
      | Some m \<Rightarrow>
          (case capture s m n of
             None \<Rightarrow> None
           | Some g \<Rightarrow> if g = [] then None else Some g))"

definition extractFirstImage :: "string \<Rightarrow> string option" where
  "extractFirstImage content' =
     (case matchGroup noFlags markdownImageRegex content' 1 of
        Some url \<Rightarrow> Some url
      | None \<Rightarrow>
          (case matchGroup flagI directImageUrlRegex content' 1 of
             Some url \<Rightarrow> Some url
           | None \<Rightarrow>
               (case matchGroup noFlags htmlImageRegex content' 1 of
                  Some url \<Rightarrow> Some url
                | None \<Rightarrow> None)))"

subsection \<open>extractFrontMatter\<close>

definition anyChar :: regex where
  "anyChar = Cls False [Space, NonSpace]"

text \<open>\<^verbatim>\<open>/^---\n([\s\S]*?)\n---\n([\s\S]*)$/\<close>\<close>

definition frontMatterRegex :: regex where
  "frontMatterRegex =
     reSeq [Bol, reStr (''---'' @ [NL]), Grp 1 (reLazyStar anyChar),
            reStr ([NL] @ ''---'' @ [NL]), Grp 2 (reStar anyChar), Eol]"

text \<open>
  The front matter object is created as \<^verbatim>\<open>{}\<close>; it is modelled as the map from the
  names of its own properties to their values. The assignment
  \<^verbatim>\<open>frontMatter[k] = v\<close> of a string \<open>v\<close> creates or overwrites the property \<open>k\<close>,
  except for the name \<^verbatim>\<open>__proto__\<close>: that assignment calls the setter inherited from
  \<^verbatim>\<open>Object.prototype\<close>, which ignores a value that is neither an object nor null. The
  properties read by the code (\<^verbatim>\<open>title\<close>, \<^verbatim>\<open>slug\<close>, \<^verbatim>\<open>date\<close>, \<^verbatim>\<open>excerpt\<close>,
  \<^verbatim>\<open>author\<close>) are not inherited, so reading them is looking them up in the map.
\<close>

type_synonym frontMatter = "string \<rightharpoonup> string"

definition assign :: "frontMatter \<Rightarrow> string \<Rightarrow> string \<Rightarrow> frontMatter" where
  "assign fm k v = (if k = ''__proto__'' then fm else fm(k \<mapsto> v))"

text \<open>
  The body of the \<^verbatim>\<open>forEach\<close>: \<^verbatim>\<open>const [key, ...valueParts] = line.split(':')\<close>, and
  the assignment when \<^verbatim>\<open>key\<close> is non-empty and there is at least one more part.
\<close>

definition parseLine :: "frontMatter \<Rightarrow> string \<Rightarrow> frontMatter" where
  "parseLine fm line =
     (case splitOn (CHR '':'') line of
        [] \<Rightarrow> fm
      | key # valueParts \<Rightarrow>
          if key \<noteq> [] \<and> 0 < length valueParts
          then assign fm (trim key) (trim (join '':'' valueParts))
          else fm)"

definition extractFrontMatter :: "string \<Rightarrow> frontMatter \<times> string" where
  "extractFrontMatter content' =
     (case regexMatch noFlags frontMatterRegex content' of
        None \<Rightarrow> (Map.empty, content')
      | Some m \<Rightarrow>
          (foldl parseLine Map.empty (splitOn NL (captureStr content' m 1)),
           captureStr content' m 2))"

subsection \<open>processMarkdownContent\<close>

definition youtubePrefix :: regex where
  "youtubePrefix =
     Alt (reSeq [reStr ''http'', reOpt (reChar (CHR ''s'')), reStr ''://'', reOpt (reStr ''www.''),
                 reStr ''youtube.com/watch?v=''])
         (reSeq [reStr ''http'', reOpt (reChar (CHR ''s'')), reStr ''://youtu.be/''])"

definition idChar :: regex where
  "idChar = Cls False [Range (CHR ''a'') (CHR ''z''), Range (CHR ''A'') (CHR ''Z''),
                       Range (CHR ''0'') (CHR ''9''), Range (CHR ''_'') (CHR ''_''),
                       Range (CHR ''-'') (CHR ''-'')]"

definition urlParams :: regex where
  "urlParams = reOpt (reSeq [reChar (CHR ''&''), reStar (Cls True [Range (CHR ''<'') (CHR ''<''), Space])])"

definition notPunct :: regex where
  "notPunct = Cls True (oneOf ''.!?'')"

text \<open>
  \<^verbatim>\<open>/([^.!?]*(?:https?:\/\/(?:www\.)?youtube\.com\/watch\?v=|https?:\/\/youtu\.be\/)([a-zA-Z0-9_-]+)(?:&[^<\s]*)?[^.!?]*[.!?])/g\<close>
\<close>

definition re_youtubeSentence :: regex where
  "re_youtubeSentence =
     Grp 1 (reSeq [reStar notPunct, youtubePrefix, Grp 2 (rePlus idChar), urlParams,
                   reStar notPunct, Cls False (oneOf ''.!?'')])"

text \<open>
  \<^verbatim>\<open>/(https?:\/\/(?:www\.)?youtube\.com\/watch\?v=|https?:\/\/youtu\.be\/)([a-zA-Z0-9_-]+)(?:&[^<\s]*)?/\<close>
\<close>

definition re_youtubeUrl :: regex where
  "re_youtubeUrl = reSeq [Grp 1 youtubePrefix, Grp 2 (rePlus idChar), urlParams]"

text \<open>
  \<^verbatim>\<open>/(?:^|\s)(https?:\/\/(?:www\.)?youtube\.com\/watch\?v=|https?:\/\/youtu\.be\/)([a-zA-Z0-9_-]+)(?:&[^<\s]*)?(?:\s|$)/g\<close>
\<close>

definition re_standaloneYoutube :: regex where
  "re_standaloneYoutube =
     reSeq [Alt Bol reSpace, Grp 1 youtubePrefix, Grp 2 (rePlus idChar), urlParams,
            Alt reSpace Eol]"

text \<open>\<^verbatim>\<open>/(!\[.*?\]\()(.+?)(\))/g\<close>\<close>

definition re_imageUrl :: regex where
  "re_imageUrl =
     reSeq [Grp 1 (reSeq [reStr ''!['', reLazyStar reDot, reStr '']('']), Grp 2 (reLazyPlus reDot),
            Grp 3 (reChar (CHR '')''))]"

text \<open>\<^verbatim>\<open>/^\.?\/?/\<close>\<close>

definition re_leadingDotSlash :: regex where
  "re_leadingDotSlash = reSeq [Bol, reOpt (reChar (CHR ''.'')), reOpt (reChar (CHR ''/''))]"

text \<open>\<^verbatim>\<open>/(^|\n|\s)(https?:\/\/.*?\.(jpg|jpeg|png|gif|webp))(\s|\n|$)/gi\<close>\<close>

definition re_standaloneImage :: regex where
  "re_standaloneImage =
     reSeq [Grp 1 (reAlt [Bol, reChar NL, reSpace]),
            Grp 2 (reSeq [reStr ''http'', reOpt (reChar (CHR ''s'')), reStr ''://'', reLazyStar reDot,
                          reChar (CHR ''.''), Grp 3 imageExtension]),
            Grp 4 (reAlt [reSpace, reChar NL, Eol])]"

definition embedTag :: "string \<Rightarrow> string" where
  "embedTag videoId = [NL, NL] @ ''youtube:'' @ videoId @ [NL, NL]"

definition embedSentence :: "string \<Rightarrow> string" where
  "embedSentence match =
     (case regexMatch noFlags re_youtubeUrl match of
        None \<Rightarrow> match
      | Some urlMatch \<Rightarrow>
          replaceString match (matched match urlMatch)
            (embedTag (captureStr match urlMatch 2)))"

definition embedStandalone :: "string \<Rightarrow> rmatch \<Rightarrow> string" where
  "embedStandalone s m =
     replaceString (matched s m) (captureStr s m 1 @ captureStr s m 2)
       (embedTag (captureStr s m 2))"

definition fixImageUrl :: "string \<Rightarrow> rmatch \<Rightarrow> string" where
  "fixImageUrl s m =
     (let url = captureStr s m 2 in
      if startsWith url ''http'' \<or> startsWith url ''https'' then matched s m
      else captureStr s m 1 @ replaceFirstStr noFlags re_leadingDotSlash url [] @ captureStr s m 3)"

definition imageFromUrl :: "string \<Rightarrow> rmatch \<Rightarrow> string" where
  "imageFromUrl s m =
     (if includes_str (matched s m) '']('' \<or> includes_str (matched s m) ''![''
      then matched s m
      else captureStr s m 1 @ ''![Image]('' @ captureStr s m 2 @ '')'' @ captureStr s m 4)"

definition embedSentences :: "string \<Rightarrow> string" where
  "embedSentences content' =
     replaceAll noFlags re_youtubeSentence content' (\<lambda>m. embedSentence (matched content' m))"

definition embedStandalones :: "string \<Rightarrow> string" where
  "embedStandalones content' = replaceAll noFlags re_standaloneYoutube content' (embedStandalone content')"

definition fixImageUrls :: "string \<Rightarrow> string" where
  "fixImageUrls content' = replaceAll noFlags re_imageUrl content' (fixImageUrl content')"

definition imagesFromUrls :: "string \<Rightarrow> string" where
  "imagesFromUrls content' = replaceAll flagI re_standaloneImage content' (imageFromUrl content')"

definition processMarkdownContent :: "string \<Rightarrow> string" where
  "processMarkdownContent content' =
     imagesFromUrls (fixImageUrls (embedStandalones (embedSentences content')))"

subsection \<open>getYoutubeThumbnailUrl, extractVideoId, extractTitleFromMarkdown\<close>

definition getYoutubeThumbnailUrl :: "string \<Rightarrow> string" where
  "getYoutubeThumbnailUrl videoId = ''https://img.youtube.com/vi/'' @ videoId @ ''/maxresdefault.jpg''"

text \<open>
  \<^verbatim>\<open>/(?:youtube\.com\/(?:[^\/]+\/.+\/|(?:v|e(?:mbed)?)\/|.*[?&]v=)|youtu\.be\/)([^"&?\/\s]{11})/i\<close>
\<close>

definition re_youtubeId :: regex where
  "re_youtubeId =
     reSeq [Alt (reSeq [reStr ''youtube.com/'',
                        reAlt [reSeq [rePlus (Cls True (oneOf ''/'')), reChar (CHR ''/''),
                                      rePlus reDot, reChar (CHR ''/'')],
                               reSeq [Alt (reChar (CHR ''v''))
                                          (reSeq [reChar (CHR ''e''), reOpt (reStr ''mbed'')]),
                                      reChar (CHR ''/'')],
                               reSeq [reStar reDot, Cls False (oneOf ''?&''), reStr ''v='']]])
                (reStr ''youtu.be/''),
            Grp 1 (reTimes 11 (Cls True (oneOf ([DQ] @ ''&?/'') @ [Space])))]"

text \<open>\<^verbatim>\<open>/youtube:([a-zA-Z0-9_-]{11})/\<close>\<close>

definition re_youtubeTag :: regex where
  "re_youtubeTag = reSeq [reStr ''youtube:'', Grp 1 (reTimes 11 idChar)]"

definition extractVideoId :: "string \<Rightarrow> string option" where
  "extractVideoId content' =
     (case regexMatch flagI re_youtubeId content' of
        None \<Rightarrow>
          (case regexMatch noFlags re_youtubeTag content' of
             None \<Rightarrow> None
           | Some youtubeEmbed \<Rightarrow> capture content' youtubeEmbed 1)
      | Some youtubeMatch \<Rightarrow> capture content' youtubeMatch 1)"

text \<open>\<^verbatim>\<open>/^#\s+(.+)$/m\<close>\<close>

definition re_heading :: regex where
  "re_heading = reSeq [Bol, reChar (CHR ''#''), rePlus reSpace, Grp 1 (rePlus reDot), Eol]"

definition extractTitleFromMarkdown :: "string \<Rightarrow> string" where
  "extractTitleFromMarkdown content' =
     (case regexMatch flagM re_heading content' of
        None \<Rightarrow> ''Untitled Post''
      | Some titleMatch \<Rightarrow> trim (captureStr content' titleMatch 1))"

subsection \<open>getAllPosts and getPostBySlug\<close>

text \<open>
  What the functions take from outside the repository: the package \<^verbatim>\<open>slugify\<close> (called
  with the options \<^verbatim>\<open>lower\<close>, \<^verbatim>\<open>strict\<close>, \<^verbatim>\<open>trim\<close> and the replacement \<^verbatim>\<open>-\<close>; as
  any call into a library it may throw), the time stamp \<^verbatim>\<open>new Date(s).getTime()\<close> of a
  date string (\<open>None\<close> for \<^verbatim>\<open>NaN\<close>, an invalid date), and the current time
  \<^verbatim>\<open>new Date().toISOString()\<close> read while the file of a given index is processed.
\<close>

datatype exn = Error string

record runtime =
  slugify :: "string \<Rightarrow> exn + string"
  getTime :: "string \<Rightarrow> int option"
  nowISO :: "nat \<Rightarrow> string"

datatype 'a promise = Resolved 'a | Rejected exn

definition createSlug :: "runtime \<Rightarrow> string \<Rightarrow> exn + string" where
  "createSlug rt text = slugify rt text"

text \<open>\<^verbatim>\<open>a || b\<close> for a property of the front matter: absent and empty are falsy.\<close>

definition orElse :: "string option \<Rightarrow> string \<Rightarrow> string" where
  "orElse a b = (case a of None \<Rightarrow> b | Some v \<Rightarrow> if v = [] then b else v)"

definition defaultAuthor :: string where
  "defaultAuthor = ''NichePinner Team''"

definition pickFeaturedImage :: "string \<Rightarrow> string option" where
  "pickFeaturedImage processedContent =
     (case extractFirstImage processedContent of
        Some img \<Rightarrow> Some img
      | None \<Rightarrow>
          (case extractVideoId processedContent of
             None \<Rightarrow> None
           | Some videoId \<Rightarrow>
               if videoId = [] then None else Some (getYoutubeThumbnailUrl videoId)))"

text \<open>The callback of \<^verbatim>\<open>map\<close> for the file of index \<open>i\<close> with the given raw text.\<close>

definition buildPost :: "runtime \<Rightarrow> nat \<Rightarrow> string \<Rightarrow> exn + BlogPost" where
  "buildPost rt i raw =
     (let frontMatter = fst (extractFrontMatter raw);
          markdown = snd (extractFrontMatter raw);
          processedContent = processMarkdownContent markdown;
          title' = orElse (frontMatter ''title'') (extractTitleFromMarkdown processedContent)
      in case (if orElse (frontMatter ''slug'') [] \<noteq> []
               then createSlug rt (orElse (frontMatter ''slug'') [])
               else createSlug rt title') of
           Inl e \<Rightarrow> Inl e
         | Inr slug' \<Rightarrow>
             Inr \<lparr>title = title',
                  slug = slug',
                  date = orElse (frontMatter ''date'') (nowISO rt i),
                  content = processedContent,
                  excerpt = Some (orElse (frontMatter ''excerpt'')
                                   (generateMetaDescription processedContent)),
                  author = Some (orElse (frontMatter ''author'') defaultAuthor),
                  featuredImage = pickFeaturedImage processedContent\<rparr>)"

text \<open>
  \<^verbatim>\<open>Object.entries(posts).map(...)\<close> over the files (path and raw text): an exception
  in a callback ends the whole \<^verbatim>\<open>map\<close>.
\<close>

fun mapPosts :: "runtime \<Rightarrow> nat \<Rightarrow> (string \<times> string) list \<Rightarrow> exn + BlogPost list" where
  "mapPosts rt i [] = Inr []"
| "mapPosts rt i (entry # entries) =
     (case buildPost rt i (snd entry) of
        Inl e \<Rightarrow> Inl e
      | Inr post \<Rightarrow>
          (case mapPosts rt (Suc i) entries of
             Inl e \<Rightarrow> Inl e
           | Inr ps \<Rightarrow> Inr (post # ps)))"

text \<open>
  The comparison function of the sort,
  \<^verbatim>\<open>new Date(b.date).getTime() - new Date(a.date).getTime()\<close>; a result \<^verbatim>\<open>NaN\<close> counts as
  zero in \<^verbatim>\<open>sort\<close>.
\<close>

definition compareDates :: "runtime \<Rightarrow> BlogPost \<Rightarrow> BlogPost \<Rightarrow> int" where
  "compareDates rt a b =
     (case getTime rt (date b) of
        None \<Rightarrow> 0
      | Some tb \<Rightarrow> (case getTime rt (date a) of None \<Rightarrow> 0 | Some ta \<Rightarrow> tb - ta))"

text \<open>
  \<^verbatim>\<open>Array.prototype.sort\<close> is stable; it is modelled as the stable insertion sort. For
  a comparison function that is not a consistent order the language leaves the result to
  the implementation.
\<close>

fun insertBy :: "('a \<Rightarrow> 'a \<Rightarrow> int) \<Rightarrow> 'a \<Rightarrow> 'a list \<Rightarrow> 'a list" where
  "insertBy cmp x [] = [x]"
| "insertBy cmp x (y # ys) = (if cmp x y \<le> 0 then x # y # ys else y # insertBy cmp x ys)"

fun sortBy :: "('a \<Rightarrow> 'a \<Rightarrow> int) \<Rightarrow> 'a list \<Rightarrow> 'a list" where
  "sortBy cmp [] = []"
| "sortBy cmp (x # xs) = insertBy cmp x (sortBy cmp xs)"

definition getAllPosts :: "runtime \<Rightarrow> (string \<times> string) list \<Rightarrow> BlogPost list promise" where
  "getAllPosts rt files =
     (case mapPosts rt 0 files of
        Inl e \<Rightarrow> Resolved []
      | Inr ps \<Rightarrow> Resolved (sortBy (compareDates rt) ps))"

definition getPostBySlug ::
  "runtime \<Rightarrow> (string \<times> string) list \<Rightarrow> string \<Rightarrow> BlogPost option promise" where
  "getPostBySlug rt files s =
     (case getAllPosts rt files of
        Rejected e \<Rightarrow> Rejected e
      | Resolved allPosts \<Rightarrow> Resolved (find (\<lambda>post. slug post = s) allPosts))"

section \<open>BlogCore.tsx: the effects that load posts\<close>

record BlogListState =
  bl_posts :: "BlogPost list"
  bl_loading :: bool
  bl_error :: "string option"

definition BlogList_initial :: BlogListState where
  "BlogList_initial = \<lparr>bl_posts = [], bl_loading = True, bl_error = None\<rparr>"

text \<open>The effect of \<^verbatim>\<open>BlogList\<close> that fetches all posts, once the promise has settled.\<close>

definition BlogList_fetch :: "BlogPost list promise \<Rightarrow> BlogListState \<Rightarrow> BlogListState" where
  "BlogList_fetch result st =
     (case result of
        Resolved fetchedPosts \<Rightarrow> st\<lparr>bl_posts := fetchedPosts, bl_loading := False\<rparr>
      | Rejected err \<Rightarrow> st\<lparr>bl_error := Some ''Unable to load blog posts'', bl_loading := False\<rparr>)"

record BlogPostState =
  bp_post :: "BlogPost option"
  bp_loading :: bool
  bp_error :: "string option"

definition BlogPost_initial :: BlogPostState where
  "BlogPost_initial = \<lparr>bp_post = None, bp_loading = True, bp_error = None\<rparr>"

text \<open>
  The effect of \<^verbatim>\<open>BlogPost\<close> for the route parameter \<^verbatim>\<open>slug\<close> (\<open>None\<close>: undefined;
  \<^verbatim>\<open>!slug\<close> also holds for the empty string).
\<close>

definition BlogPost_fetch ::
  "runtime \<Rightarrow> (string \<times> string) list \<Rightarrow> string option \<Rightarrow> BlogPostState \<Rightarrow> BlogPostState" where
  "BlogPost_fetch rt files slugParam st =
     (case slugParam of
        None \<Rightarrow> st\<lparr>bp_error := Some ''Post not found'', bp_loading := False\<rparr>
      | Some s \<Rightarrow>
          if s = [] then st\<lparr>bp_error := Some ''Post not found'', bp_loading := False\<rparr>
          else
            (case getPostBySlug rt files s of
               Resolved (Some fetchedPost) \<Rightarrow> st\<lparr>bp_post := Some fetchedPost, bp_loading := False\<rparr>
             | Resolved None \<Rightarrow> st\<lparr>bp_error := Some ''Post not found'', bp_loading := False\<rparr>
             | Rejected err \<Rightarrow>
                 st\<lparr>bp_error := Some ''Unable to load blog post'', bp_loading := False\<rparr>))"

text \<open>
  The message that \<^verbatim>\<open>BlogPost\<close> renders in its error panel (\<open>None\<close>: the loading
  skeleton or the article is rendered instead).
\<close>

definition BlogPost_message :: "BlogPostState \<Rightarrow> string option" where
  "BlogPost_message st =
     (if bp_loading st then None
      else case bp_error st of
             Some e \<Rightarrow> Some (if e = [] then ''The requested blog post could not be found.'' else e)
           | None \<Rightarrow>
               (case bp_post st of
                  None \<Rightarrow> Some ''The requested blog post could not be found.''
                | Some p \<Rightarrow> None))"

section \<open>scripts/generate-sitemap.js: the fallback createSlug\<close>

text \<open>
  The function that the sitemap script uses as \<^verbatim>\<open>createSlug\<close> when the slug module
  cannot be loaded.
\<close>

text \<open>\<^verbatim>\<open>/[^\w\s-]/g\<close>, \<^verbatim>\<open>/[\s_-]+/g\<close> and \<^verbatim>\<open>/^-+|-+$/g\<close>\<close>

definition re_notSlugChar :: regex where
  "re_notSlugChar =
     Cls True [Range (CHR ''A'') (CHR ''Z''), Range (CHR ''a'') (CHR ''z''),
               Range (CHR ''0'') (CHR ''9''), Range (CHR ''_'') (CHR ''_''), Space,
               Range (CHR ''-'') (CHR ''-'')]"

definition re_separators :: regex where
  "re_separators = rePlus (Cls False [Space, Range (CHR ''_'') (CHR ''_''), Range (CHR ''-'') (CHR ''-'')])"

definition re_edgeHyphens :: regex where
  "re_edgeHyphens =
     Alt (Seq Bol (rePlus (reChar (CHR ''-'')))) (Seq (rePlus (reChar (CHR ''-''))) Eol)"

definition createSlug_fallback :: "string \<Rightarrow> string" where
  "createSlug_fallback text =
     replaceAllStr noFlags re_edgeHyphens
       (replaceAllStr noFlags re_separators
         (replaceAllStr noFlags re_notSlugChar (toLowerCase text) [])
         ''-'')
       []"

section \<open>Properties in the words of the specification\<close>

text \<open>
  The date of \<open>a\<close> is greater than or equal to the date of \<open>b\<close>, as time stamps; a
  comparison with the time stamp of an invalid date (\<^verbatim>\<open>NaN\<close>) is false.
\<close>

definition newerOrEqual :: "runtime \<Rightarrow> BlogPost \<Rightarrow> BlogPost \<Rightarrow> bool" where
  "newerOrEqual rt a b =
     (case getTime rt (date a) of
        None \<Rightarrow> False
      | Some ta \<Rightarrow> (case getTime rt (date b) of None \<Rightarrow> False | Some tb \<Rightarrow> tb \<le> ta))"

text \<open>
  The query upper-cased, as the specification has it: \<^verbatim>\<open>q.toUpperCase()\<close>, which the
  code itself never calls. The letters \<^verbatim>\<open>a\<close> to \<^verbatim>\<open>z\<close> and U+00E0 to U+00FE (U+00F7
  is not a letter) become the code unit 32 below, and U+00DF becomes \<^verbatim>\<open>SS\<close>. The
  upper-case forms of U+00B5 and U+00FF lie above U+00FF; a text with one of them has no
  upper-case form among the strings of the model (\<open>None\<close>).
\<close>

definition toUpperChar :: "char \<Rightarrow> string option" where
  "toUpperChar c =
     (if (of_char c :: nat) = 223 then Some ''SS''
      else if (of_char c :: nat) = 181 \<or> (of_char c :: nat) = 255 then None
      else Some [canonicalize c])"

fun toUpperCase :: "string \<Rightarrow> string option" where
  "toUpperCase [] = Some []"
| "toUpperCase (c # cs) =
     (case toUpperChar c of
        None \<Rightarrow> None
      | Some u \<Rightarrow> (case toUpperCase cs of None \<Rightarrow> None | Some v \<Rightarrow> Some (u @ v)))"


















text \<open>
  Modelled from the spec: the package \<^verbatim>\<open>slugify\<close>, to which \<^verbatim>\<open>createSlug\<close> forwards
  its argument (with the options \<^verbatim>\<open>lower\<close>, \<^verbatim>\<open>strict\<close>, \<^verbatim>\<open>trim\<close> and the replacement
  \<^verbatim>\<open>-\<close>), is missing from the sources. The specification says of slugs that they are
  lowercase-hyphenated; the model is the repository's own stand-in for the package, the
  fallback \<^verbatim>\<open>createSlug\<close> of the sitemap script: lower-case the text, remove what
  is neither a word character, white space nor a hyphen, replace every run of white
  space, underscores and hyphens by one hyphen, and strip the hyphens at both ends.
\<close>

definition spec_slugify :: "string \<Rightarrow> string" where
  "spec_slugify t = createSlug_fallback t"

section \<open>Auxiliary functions for the proofs about slugs\<close>

text \<open>
  \<open>squeeze P b\<close> replaces every run of characters satisfying \<open>P\<close> by one hyphen
  (\<open>b\<close>: inside such a run); \<open>dropLastHyphen\<close> removes a hyphen that ends the
  text; \<open>hyphensSingle b\<close> holds of a text of lower-case letters, digits and single
  hyphens (\<open>b\<close>: no hyphen may come first), and \<open>hyphensInside b\<close> moreover excludes a
  hyphen at the end.
\<close>

fun squeeze :: "(char \<Rightarrow> bool) \<Rightarrow> bool \<Rightarrow> string \<Rightarrow> string" where
  "squeeze P b [] = []"
| "squeeze P b (c # cs) =
     (if P c then (if b then squeeze P True cs else CHR ''-'' # squeeze P True cs)
      else c # squeeze P False cs)"

fun dropLastHyphen :: "string \<Rightarrow> string" where
  "dropLastHyphen [] = []"
| "dropLastHyphen [c] = (if c = CHR ''-'' then [] else [c])"
| "dropLastHyphen (c # d # cs) = c # dropLastHyphen (d # cs)"

definition isSlugLetter :: "char \<Rightarrow> bool" where
  "isSlugLetter c =
     ((97 \<le> (of_char c :: nat) \<and> (of_char c :: nat) \<le> 122) \<or>
      (48 \<le> (of_char c :: nat) \<and> (of_char c :: nat) \<le> 57))"

fun hyphensInside :: "bool \<Rightarrow> string \<Rightarrow> bool" where
  "hyphensInside b [] = True"
| "hyphensInside b (c # cs) =
     (if c = CHR ''-'' then \<not> b \<and> cs \<noteq> [] \<and> hyphensInside True cs
      else isSlugLetter c \<and> hyphensInside False cs)"

fun hyphensSingle :: "bool \<Rightarrow> string \<Rightarrow> bool" where
  "hyphensSingle b [] = True"
| "hyphensSingle b (c # cs) =
     (if c = CHR ''-'' then \<not> b \<and> hyphensSingle True cs
      else isSlugLetter c \<and> hyphensSingle False cs)"

definition keepChar :: "char \<Rightarrow> bool" where
  "keepChar c =
     (\<not> classMatches noFlags True
          [Range (CHR ''A'') (CHR ''Z''), Range (CHR ''a'') (CHR ''z''),
           Range (CHR ''0'') (CHR ''9''), Range (CHR ''_'') (CHR ''_''), Space,
           Range (CHR ''-'') (CHR ''-'')] c)"

definition sepChar :: "char \<Rightarrow> bool" where
  "sepChar c =
     classMatches noFlags False
       [Space, Range (CHR ''_'') (CHR ''_''), Range (CHR ''-'') (CHR ''-'')] c"

definition stripEnds :: "string \<Rightarrow> string" where
  "stripEnds v =
     (case v of
        [] \<Rightarrow> []
      | c # cs \<Rightarrow> if c = CHR ''-'' then dropLastHyphen cs else c # dropLastHyphen cs)"

section \<open>The matcher on examples\<close>

text \<open>
  Empty matches of a global replacement, greedy and lazy quantifiers, the flags \<^verbatim>\<open>i\<close>
  and \<^verbatim>\<open>m\<close>, and a template that names a group the expression has or does not have.
\<close>

lemma example_empty_matches:
  "replaceAllStr noFlags (reStar (reChar (CHR ''x''))) ''abc'' ''-'' = ''-a-b-c-''"
  by code_simp

lemma example_greedy_lazy:
  "map_option (matched ''aXbXc'')
     (regexMatch noFlags (reSeq [reChar (CHR ''a''), reStar reDot, reChar (CHR ''X'')]) ''aXbXc'')
     = Some ''aXbX'' \<and>
   map_option (matched ''aXbXc'')
     (regexMatch noFlags (reSeq [reChar (CHR ''a''), reLazyStar reDot, reChar (CHR ''X'')]) ''aXbXc'')
     = Some ''aX''"
  by code_simp

lemma example_ignore_case:
  "map_option m_index (regexMatch flagI (reStr ''png'') ''a.PNG'') = Some 2 \<and>
   regexMatch noFlags (reStr ''png'') ''a.PNG'' = None"
  by code_simp

lemma example_template:
  "replaceAllStr noFlags (reSeq [reChar (CHR ''<''), Grp 1 (rePlus idChar), reChar (CHR ''>'')])
     ''a <b> c'' ''[$1]'' = ''a [b] c'' \<and>
   replaceAllStr noFlags (reSeq [reChar (CHR ''<''), rePlus idChar, reChar (CHR ''>'')])
     ''a <b> c'' ''[$1]'' = ''a [$1] c''"
  by code_simp

lemma example_multiline:
  "map_option m_index (regexMatch flagM (reSeq [Bol, reChar (CHR ''#'')]) (''a'' @ [NL] @ ''#b'')) = Some 2 \<and>
   regexMatch noFlags (reSeq [Bol, reChar (CHR ''#'')]) (''a'' @ [NL] @ ''#b'') = None"
  by code_simp


section \<open>Properties of strings\<close>

lemmas char_eval = char_of_def bit_Suc_0_iff


lemma of_char_toLowerChar:
  "isUpperLetter c \<Longrightarrow> (of_char (toLowerChar c) :: nat) = of_char c + 32"
  by (auto simp: toLowerChar_def isUpperLetter_def)

lemma toLowerChar_id: "\<not> isUpperLetter c \<Longrightarrow> toLowerChar c = c"
  by (simp add: toLowerChar_def)

lemma toLowerChar_not_upper: "\<not> isUpperLetter (toLowerChar c)"
proof (cases "isUpperLetter c")
  case True
  from of_char_toLowerChar [OF True] True show ?thesis
    by (auto simp: isUpperLetter_def)
next
  case False
  then show ?thesis by (simp add: toLowerChar_def)
qed

lemma toLowerChar_idem [simp]: "toLowerChar (toLowerChar c) = toLowerChar c"
  by (rule toLowerChar_id) (rule toLowerChar_not_upper)

lemma isWhiteSpace_toLowerChar [simp]: "isWhiteSpace (toLowerChar c) = isWhiteSpace c"
proof (cases "isUpperLetter c")
  case True
  from of_char_toLowerChar [OF True] True show ?thesis
    by (auto simp: isWhiteSpace_def isUpperLetter_def)
next
  case False
  then show ?thesis by (simp add: toLowerChar_def)
qed

lemma of_char_canonicalize:
  "isLowerLetter c \<Longrightarrow> (of_char (canonicalize c) :: nat) = of_char c - 32"
proof -
  assume l: "isLowerLetter c"
  have "(of_char c :: nat) - 32 < 256"
    using nat_of_char_less_256 [of c] by arith
  with l show ?thesis by (simp add: canonicalize_def)
qed

lemma lower_not_upper: "isLowerLetter c \<Longrightarrow> \<not> isUpperLetter c"
  by (auto simp: isLowerLetter_def isUpperLetter_def)

lemma canonicalize_upper: "isLowerLetter c \<Longrightarrow> isUpperLetter (canonicalize c)"
proof -
  assume l: "isLowerLetter c"
  from of_char_canonicalize [OF l] l show ?thesis
    by (auto simp: isLowerLetter_def isUpperLetter_def)
qed

lemma toLowerChar_canonicalize [simp]: "toLowerChar (canonicalize c) = toLowerChar c"
proof (cases "isLowerLetter c")
  case True
  have "toLowerChar (canonicalize c) = char_of ((of_char (canonicalize c) :: nat) + 32)"
    using canonicalize_upper [OF True] by (simp add: toLowerChar_def)
  also have "\<dots> = char_of (of_char c :: nat)"
    using of_char_canonicalize [OF True] True by (auto simp: isLowerLetter_def)
  also have "\<dots> = c" by simp
  finally have "toLowerChar (canonicalize c) = c" .
  moreover have "toLowerChar c = c"
    using lower_not_upper [OF True] by (rule toLowerChar_id)
  ultimately show ?thesis by simp
next
  case False
  then show ?thesis by (simp add: canonicalize_def)
qed

lemma canonicalize_not_lower: "\<not> isLowerLetter (canonicalize c)"
proof (cases "isLowerLetter c")
  case True
  from lower_not_upper [of "canonicalize c"] canonicalize_upper [OF True] show ?thesis by blast
next
  case False
  then show ?thesis by (simp add: canonicalize_def)
qed

lemma isWhiteSpace_canonicalize [simp]: "isWhiteSpace (canonicalize c) = isWhiteSpace c"
proof (cases "isLowerLetter c")
  case True
  from of_char_canonicalize [OF True] True show ?thesis
    by (auto simp: isWhiteSpace_def isLowerLetter_def)
next
  case False
  then show ?thesis by (simp add: canonicalize_def)
qed

lemma isLineTerminator_toLowerChar [simp]: "isLineTerminator (toLowerChar c) = isLineTerminator c"
proof (cases "isUpperLetter c")
  case True
  from of_char_toLowerChar [OF True] True show ?thesis
    by (auto simp: isLineTerminator_def isUpperLetter_def)
next
  case False
  then show ?thesis by (simp add: toLowerChar_def)
qed

lemma isLineTerminator_canonicalize [simp]: "isLineTerminator (canonicalize c) = isLineTerminator c"
proof (cases "isLowerLetter c")
  case True
  from of_char_canonicalize [OF True] True show ?thesis
    by (auto simp: isLineTerminator_def isLowerLetter_def)
next
  case False
  then show ?thesis by (simp add: canonicalize_def)
qed

lemma toUpperChar_lower:
  assumes "toUpperChar c = Some u" "(of_char c :: nat) \<noteq> 223"
  shows "toLowerCase u = [toLowerChar c]"
  using assms by (auto simp: toUpperChar_def toLowerCase_def split: if_splits)

lemma toLowerCase_append: "toLowerCase (a @ b) = toLowerCase a @ toLowerCase b"
  by (simp add: toLowerCase_def)

lemma toUpperCase_lower:
  assumes "toUpperCase q = Some u" "\<forall>c \<in> set q. (of_char c :: nat) \<noteq> 223"
  shows "toLowerCase u = toLowerCase q"
  using assms
proof (induction q arbitrary: u)
  case Nil
  then show ?case by (simp add: toLowerCase_def)
next
  case (Cons c cs)
  from Cons.prems(1) obtain a b where a: "toUpperChar c = Some a" and b: "toUpperCase cs = Some b"
    and u: "u = a @ b"
    by (auto split: option.splits)
  from Cons.prems(2) have "(of_char c :: nat) \<noteq> 223" by simp
  with a have "toLowerCase a = [toLowerChar c]" by (rule toUpperChar_lower)
  moreover from Cons.prems(2) have "toLowerCase b = toLowerCase cs"
    using Cons.IH [OF b] by simp
  ultimately show ?case
    unfolding u toLowerCase_append by (simp add: toLowerCase_def)
qed

lemma dropWhile_ws_toLowerCase:
  "dropWhile isWhiteSpace (toLowerCase s) = toLowerCase (dropWhile isWhiteSpace s)"
  by (induction s) (simp_all add: toLowerCase_def)

lemma trim_toLowerCase: "trim (toLowerCase s) = toLowerCase (trim s)"
proof -
  have r: "rev (toLowerCase t) = toLowerCase (rev t)" for t
    by (simp add: toLowerCase_def rev_map)
  show ?thesis
    unfolding trim_def by (simp add: dropWhile_ws_toLowerCase r)
qed

lemma toLowerCase_Nil_iff [simp]: "toLowerCase s = [] \<longleftrightarrow> s = []"
  by (simp add: toLowerCase_def)

lemma trim_empty_toLowerCase: "trim (toLowerCase s) = [] \<longleftrightarrow> trim s = []"
  by (simp add: trim_toLowerCase)

lemma toLowerCase_idem [simp]: "toLowerCase (toLowerCase s) = toLowerCase s"
  by (simp add: toLowerCase_def)

lemma sharp_s_iff: "(of_char c :: nat) = 223 \<longleftrightarrow> c = CHR 0xDF"
proof -
  have "(of_char c :: nat) = of_char (CHR 0xDF) \<longleftrightarrow> c = CHR 0xDF"
    by (rule of_char_eq_iff)
  then show ?thesis by simp
qed

section \<open>Properties of the pagination\<close>

lemma totalPages_bound: "0 \<le> totalPages fp \<and> int (length fp) \<le> totalPages fp * 30"
proof -
  have "real (length fp) / 30 \<le> real_of_int (totalPages fp)"
    unfolding totalPages_def postsPerPage_def by simp
  then have "real (length fp) \<le> real_of_int (totalPages fp * 30)"
    by simp
  then have "real_of_int (int (length fp)) \<le> real_of_int (totalPages fp * 30)"
    by simp
  then have b: "int (length fp) \<le> totalPages fp * 30"
    by (simp only: of_int_le_iff)
  have "0 \<le> int (length fp)" by simp
  with b have "0 \<le> totalPages fp * 30" by linarith
  then have "0 \<le> totalPages fp" by simp
  with b show ?thesis by simp
qed

lemma totalPages_nat: "\<exists>m. totalPages fp = int m \<and> length fp \<le> m * 30"
proof -
  from totalPages_bound [of fp] obtain m where im: "totalPages fp = int m"
    using zero_le_imp_eq_int by blast
  with totalPages_bound [of fp] have "int (length fp) \<le> int (m * 30)" by simp
  then have "length fp \<le> m * 30" by (simp only: of_nat_le_iff)
  with im show ?thesis by blast
qed

lemma currentPosts_take_drop:
  assumes "1 \<le> p"
  shows "currentPosts fp p = take 30 (drop (nat (startIndex p)) fp)"
proof -
  have s: "0 \<le> startIndex p" using assms by (simp add: startIndex_def postsPerPage_def)
  have e: "endIndex p = startIndex p + 30" by (simp add: endIndex_def postsPerPage_def)
  show ?thesis
  proof (cases "startIndex p \<le> int (length fp)")
    case True
    then have "nat (min (startIndex p + 30) (int (length fp)) - startIndex p)
                 = min 30 (length fp - nat (startIndex p))"
      using s by (auto simp: min_def)
    then show ?thesis
      using s True unfolding currentPosts_def slice_def Let_def e
      by (simp add: min_absorb1 take_drop min_def)
  next
    case False
    then show ?thesis
      using s unfolding currentPosts_def slice_def Let_def e
      by (simp add: min_def)
  qed
qed

lemma concat_chunks:
  "concat (map (\<lambda>k. take n (drop (k * n) xs)) [0..<m]) = take (m * n) xs"
proof (induction m)
  case 0
  show ?case by simp
next
  case (Suc m)
  have "take (m * n) xs @ take n (drop (m * n) xs) = take (m * n + n) xs"
    by (simp add: take_add)
  with Suc show ?case by (simp add: add.commute)
qed

lemma upto_as_upt: "[1..int m] = map (\<lambda>k. int k + 1) [0..<m]"
proof (induction m)
  case 0
  show ?case by simp
next
  case (Suc m)
  have "[1..int (Suc m)] = [1..int m] @ [int m + 1]"
    by (simp add: upto_rec2 add.commute)
  with Suc show ?case by simp
qed

text \<open>
  C2. For a current page \<open>p \<ge> 1\<close> the displayed slice consists of the posts at the
  indices from \<open>(p - 1) * postsPerPage\<close> up to (excluding) that offset plus
  \<open>postsPerPage\<close>, cut off at the length of the filtered list; it has at most
  \<open>postsPerPage\<close> elements, each one read at an index inside the list, and the
  slices of the pages \<open>1 .. \<lceil>length / postsPerPage\<rceil>\<close> concatenated give the
  filtered list back.
\<close>

theorem currentPosts_slice:
  assumes "1 \<le> p"
  shows "currentPosts fp p
           = map (nth fp) [nat (startIndex p) ..< min (nat (endIndex p)) (length fp)] \<and>
         int (length (currentPosts fp p)) \<le> postsPerPage \<and>
         (\<forall>i < length (currentPosts fp p).
           nat (startIndex p) + i < length fp \<and>
           currentPosts fp p ! i = fp ! (nat (startIndex p) + i)) \<and>
         concat (map (currentPosts fp) [1..totalPages fp]) = fp"
proof -
  have s: "0 \<le> startIndex p" using assms by (simp add: startIndex_def postsPerPage_def)
  have e: "nat (endIndex p) = nat (startIndex p) + 30"
    using s by (simp add: endIndex_def postsPerPage_def nat_add_distrib)
  have td: "currentPosts fp p = take 30 (drop (nat (startIndex p)) fp)"
    using assms by (rule currentPosts_take_drop)
  have c1: "currentPosts fp p
           = map (nth fp) [nat (startIndex p) ..< min (nat (endIndex p)) (length fp)]"
  proof (rule nth_equalityI)
    show "length (currentPosts fp p)
            = length (map (nth fp) [nat (startIndex p) ..< min (nat (endIndex p)) (length fp)])"
      unfolding td e by (simp add: min_def, arith)
  next
    fix i assume "i < length (currentPosts fp p)"
    then have i: "i < 30" "i < length fp - nat (startIndex p)"
      unfolding td by simp_all
    define a where "a = nat (startIndex p)"
    define b where "b = min (nat (endIndex p)) (length fp)"
    have ab: "a + i < b"
      using i unfolding a_def b_def e by simp
    then have "i < length [a..<b]" by simp
    then have "map (nth fp) [a..<b] ! i = fp ! ([a..<b] ! i)" by (rule nth_map)
    also have "\<dots> = fp ! (a + i)" using ab by simp
    finally have r: "map (nth fp) [a..<b] ! i = fp ! (a + i)" .
    have "currentPosts fp p ! i = fp ! (a + i)"
      unfolding td a_def using i by simp
    with r show "currentPosts fp p ! i
            = map (nth fp) [nat (startIndex p) ..< min (nat (endIndex p)) (length fp)] ! i"
      unfolding a_def b_def by simp
  qed
  have c2: "int (length (currentPosts fp p)) \<le> postsPerPage"
    unfolding td by (simp add: postsPerPage_def)
  have c3: "\<forall>i < length (currentPosts fp p).
           nat (startIndex p) + i < length fp \<and>
           currentPosts fp p ! i = fp ! (nat (startIndex p) + i)"
    unfolding td by auto
  have c4: "concat (map (currentPosts fp) [1..totalPages fp]) = fp"
  proof -
    from totalPages_nat [of fp] obtain m
      where im: "totalPages fp = int m" and big: "length fp \<le> m * 30" by blast
    have page: "currentPosts fp (int k + 1) = take 30 (drop (k * 30) fp)" for k
    proof -
      have "nat (startIndex (int k + 1)) = k * 30"
        by (simp add: startIndex_def postsPerPage_def nat_mult_distrib)
      then show ?thesis
        using currentPosts_take_drop [of "int k + 1" fp] by simp
    qed
    have "concat (map (currentPosts fp) [1..totalPages fp])
            = concat (map (\<lambda>k. take 30 (drop (k * 30) fp)) [0..<m])"
      unfolding im upto_as_upt by (simp only: map_map comp_def page)
    also have "\<dots> = take (m * 30) fp" by (rule concat_chunks)
    also have "\<dots> = fp" using big by simp
    finally show ?thesis .
  qed
  from c1 c2 c3 c4 show ?thesis by (intro conjI)
qed

theorem currentPosts_slice_witness:
  "(1::int) \<le> 2 \<and>
   currentPosts [0..<35::nat] 2 = [30, 31, 32, 33, 34] \<and>
   concat (map (currentPosts [0..<35::nat]) [1..totalPages [0..<35::nat]]) = [0..<35]"
proof -
  have u: "[30..<35::nat] = [30, 31, 32, 33, 34]" by (simp add: upt_rec)
  have "nat (startIndex 2) = 30" "nat (endIndex 2) = 60"
    by (simp_all add: startIndex_def endIndex_def postsPerPage_def)
  with currentPosts_slice [of 2 "[0..<35::nat]"] u show ?thesis
    by (simp add: nth_upt cong: map_cong)
qed

section \<open>Properties of the search filter\<close>

lemma trim_Nil_iff: "trim s = [] \<longleftrightarrow> (\<forall>c \<in> set s. isWhiteSpace c)"
proof
  assume t: "trim s = []"
  show "\<forall>c \<in> set s. isWhiteSpace c"
  proof (cases "dropWhile isWhiteSpace s")
    case Nil
    then show ?thesis by (simp add: dropWhile_eq_Nil_conv)
  next
    case (Cons x xs)
    then have "\<not> isWhiteSpace x"
      using hd_dropWhile [of isWhiteSpace s] by simp
    moreover from t Cons have "isWhiteSpace x"
      by (simp add: trim_def dropWhile_eq_Nil_conv)
    ultimately show ?thesis by simp
  qed
next
  assume "\<forall>c \<in> set s. isWhiteSpace c"
  then have d: "dropWhile isWhiteSpace s = []" by (simp add: dropWhile_eq_Nil_conv)
  show "trim s = []" unfolding trim_def d by simp
qed

text \<open>
  C4. With the empty query, and with any query made of white space only (which
  \<^verbatim>\<open>trim\<close> reduces to the empty string), the filtered list is the list of all posts,
  unchanged and in the same order.
\<close>

theorem filteredPosts_empty_query:
  "filteredPosts posts [] = posts \<and>
   ((\<forall>c \<in> set q. isWhiteSpace c) \<longrightarrow> filteredPosts posts q = posts)"
proof -
  have "trim [] = []" by (simp add: trim_def)
  then have "filteredPosts posts [] = posts" by (simp add: filteredPosts_def)
  moreover have "filteredPosts posts q = posts" if "\<forall>c \<in> set q. isWhiteSpace c"
    using that by (simp add: filteredPosts_def trim_Nil_iff)
  ultimately show ?thesis by blast
qed

theorem filteredPosts_empty_query_witness:
  "list_all isWhiteSpace [CHR '' '', CHR 0x09, CHR '' ''] \<and>
   filteredPosts
     [\<lparr>title = ''Pins'', slug = ''pins'', date = ''2024-01-01'', content = ''body'',
       excerpt = None, author = None, featuredImage = None\<rparr>]
     [CHR '' '', CHR 0x09, CHR '' '']
   = [\<lparr>title = ''Pins'', slug = ''pins'', date = ''2024-01-01'', content = ''body'',
       excerpt = None, author = None, featuredImage = None\<rparr>]"
proof -
  have w: "\<forall>c \<in> set [CHR '' '', CHR 0x09, CHR '' '']. isWhiteSpace c"
    by (simp add: isWhiteSpace_def)
  with filteredPosts_empty_query [of _ "[CHR '' '', CHR 0x09, CHR '' '']"] show ?thesis
    by (simp add: list_all_iff)
qed

lemma fieldIncludes_spec:
  assumes "query \<noteq> []"
  shows "fieldIncludes field query
           = (case field of None \<Rightarrow> False | Some v \<Rightarrow> includes_str (toLowerCase v) query)"
proof (cases field)
  case None
  then show ?thesis by (simp add: fieldIncludes_def)
next
  case (Some v)
  show ?thesis
  proof (cases "v = []")
    case True
    with Some assms show ?thesis by (simp add: fieldIncludes_def toLowerCase_def)
  next
    case False
    with Some show ?thesis by (simp add: fieldIncludes_def)
  qed
qed

lemma postMatches_spec:
  assumes "trim q \<noteq> []"
  shows "postMatches (toLowerCase q) post = spec_postKept q post"
proof -
  from assms have "q \<noteq> []" by (auto simp: trim_def)
  then have "toLowerCase q \<noteq> []" by simp
  then show ?thesis
    unfolding postMatches_def spec_postKept_def by (simp add: fieldIncludes_spec)
qed

lemma filteredPosts_lower_eq:
  assumes "toLowerCase q' = toLowerCase q"
  shows "filteredPosts posts q' = filteredPosts posts q"
proof -
  have "trim q' = [] \<longleftrightarrow> trim (toLowerCase q') = []"
    by (simp only: trim_empty_toLowerCase)
  also have "\<dots> \<longleftrightarrow> trim (toLowerCase q) = []" by (simp only: assms)
  also have "\<dots> \<longleftrightarrow> trim q = []" by (simp only: trim_empty_toLowerCase)
  finally show ?thesis
    unfolding filteredPosts_def by (simp only: assms)
qed

text \<open>
  C3, as stated, fails in two ways. For a query of white space only the code keeps every
  post, also one in which no field contains the query. And the upper-cased query is not
  always a capitalization variant in the sense of the code, which compares lower-cased
  texts: the upper-case form of \<^verbatim>\<open>U+00DF\<close> is \<^verbatim>\<open>SS\<close>, whose lower-case form is
  \<^verbatim>\<open>ss\<close>, so a post found with the query \<^verbatim>\<open>U+00DF\<close> is not found with that query
  upper-cased.
\<close>

theorem search_characterisation_counterexample:
  "(let p = \<lparr>title = ''a'', slug = ''a'', date = ''2024-01-01'', content = ''b'',
              excerpt = None, author = None, featuredImage = None\<rparr>
    in filteredPosts [p] '' '' = [p] \<and> \<not> spec_postKept '' '' p) \<and>
   (let p = \<lparr>title = ''Stra'' @ [CHR 0xDF] @ ''e'', slug = ''strasse'', date = ''2024-01-01'',
              content = ''b'', excerpt = None, author = None, featuredImage = None\<rparr>
    in toUpperCase [CHR 0xDF] = Some ''SS'' \<and>
       filteredPosts [p] [CHR 0xDF] = [p] \<and> filteredPosts [p] ''SS'' = [])"
  by code_simp

text \<open>
  C3 (amended). Search filtering is case-insensitive: two queries with the same
  lower-cased form give the same filtered list; the lower-cased query is such a variant
  of a query, and so is the upper-cased query when the query has an upper-case form in
  the model and does not contain \<^verbatim>\<open>U+00DF\<close>. A post is kept exactly when the query is
  blank (empty after trimming) or the lower-cased query is a substring of the lower-cased
  title, content, excerpt (when present) or author (when present).
\<close>

theorem filteredPosts_case_insensitive:
  "(toLowerCase q' = toLowerCase q \<longrightarrow> filteredPosts posts q' = filteredPosts posts q) \<and>
   filteredPosts posts (toLowerCase q) = filteredPosts posts q \<and>
   (toUpperCase q = Some u \<and> CHR 0xDF \<notin> set q \<longrightarrow>
      filteredPosts posts u = filteredPosts posts q) \<and>
   filteredPosts posts q
     = (if trim q = [] then posts else filter (spec_postKept q) posts)"
proof -
  have "filteredPosts posts q
          = (if trim q = [] then posts else filter (spec_postKept q) posts)"
  proof (cases "trim q = []")
    case True
    then show ?thesis by (simp add: filteredPosts_def)
  next
    case False
    then have "postMatches (toLowerCase q) = spec_postKept q"
      by (auto simp: postMatches_spec)
    with False show ?thesis by (simp add: filteredPosts_def)
  qed
  moreover have "filteredPosts posts (toLowerCase q) = filteredPosts posts q"
    by (rule filteredPosts_lower_eq) simp
  moreover have "filteredPosts posts u = filteredPosts posts q"
    if "toUpperCase q = Some u" and "CHR 0xDF \<notin> set q"
  proof (rule filteredPosts_lower_eq)
    from that(2) have "\<forall>c \<in> set q. (of_char c :: nat) \<noteq> 223"
      by (auto simp: sharp_s_iff)
    with that(1) show "toLowerCase u = toLowerCase q" by (rule toUpperCase_lower)
  qed
  ultimately show ?thesis
    using filteredPosts_lower_eq by blast
qed


theorem filteredPosts_case_insensitive_witness:
  "(let posts =
      [\<lparr>title = ''Ten Pins'', slug = ''ten-pins'', date = ''2024-01-01'', content = ''x'',
        excerpt = None, author = None, featuredImage = None\<rparr>,
       \<lparr>title = ''Boards'', slug = ''boards'', date = ''2024-01-02'', content = ''y'',
        excerpt = Some [], author = Some ''Ann'', featuredImage = None\<rparr>]
    in toLowerCase ''pins'' = toLowerCase ''PiNs'' \<and>
       toUpperCase ''PiNs'' = Some ''PINS'' \<and> CHR 0xDF \<notin> set ''PiNs'' \<and>
       filteredPosts posts ''PiNs'' = [hd posts] \<and>
       filteredPosts posts ''pins'' = filteredPosts posts ''PiNs'' \<and>
       filteredPosts posts ''PINS'' = filteredPosts posts ''PiNs'')"
proof -
  let ?posts =
     "[\<lparr>title = ''Ten Pins'', slug = ''ten-pins'', date = ''2024-01-01'', content = ''x'',
        excerpt = None, author = None, featuredImage = None\<rparr>,
       \<lparr>title = ''Boards'', slug = ''boards'', date = ''2024-01-02'', content = ''y'',
        excerpt = Some [], author = Some ''Ann'', featuredImage = None\<rparr>]"
  have l: "toLowerCase ''pins'' = toLowerCase ''PiNs''" by code_simp
  have u: "toUpperCase ''PiNs'' = Some ''PINS''" by code_simp
  have n: "CHR 0xDF \<notin> set ''PiNs''" by simp
  have r: "filteredPosts ?posts ''PiNs'' = [hd ?posts]" by code_simp
  note t = filteredPosts_case_insensitive [of "''pins''" "''PiNs''" ?posts "''PINS''"]
  from t l have a: "filteredPosts ?posts ''pins'' = filteredPosts ?posts ''PiNs''" by blast
  from t u n have b: "filteredPosts ?posts ''PINS'' = filteredPosts ?posts ''PiNs''" by blast
  show ?thesis
    unfolding Let_def by (intro conjI l u n r a b)
qed

section \<open>Properties of getAllPosts\<close>

lemma set_insertBy: "set (insertBy cmp x ys) = insert x (set ys)"
  by (induction ys) auto

lemma set_sortBy: "set (sortBy cmp xs) = set xs"
  by (induction xs) (simp_all add: set_insertBy)

lemma length_insertBy: "length (insertBy cmp x ys) = Suc (length ys)"
  by (induction ys) auto

lemma length_sortBy: "length (sortBy cmp xs) = length xs"
  by (induction xs) (simp_all add: length_insertBy)

lemma compareDates_valid:
  assumes "getTime rt (date a) = Some ta" "getTime rt (date b) = Some tb"
  shows "compareDates rt a b = tb - ta"
  using assms by (simp add: compareDates_def)

lemma newerOrEqual_valid:
  assumes "getTime rt (date a) = Some ta" "getTime rt (date b) = Some tb"
  shows "newerOrEqual rt a b \<longleftrightarrow> tb \<le> ta"
  using assms by (simp add: newerOrEqual_def)

lemma sorted_insertBy:
  assumes "sorted_wrt (newerOrEqual rt) ys"
    and "\<forall>p \<in> set (x # ys). getTime rt (date p) \<noteq> None"
  shows "sorted_wrt (newerOrEqual rt) (insertBy (compareDates rt) x ys)"
  using assms
proof (induction ys)
  case Nil
  then show ?case by simp
next
  case (Cons y ys)
  from Cons.prems(2) obtain tx ty
    where tx: "getTime rt (date x) = Some tx" and ty: "getTime rt (date y) = Some ty"
    by auto
  show ?case
  proof (cases "compareDates rt x y \<le> 0")
    case True
    then have xy: "ty \<le> tx" using compareDates_valid [OF tx ty] by simp
    have "newerOrEqual rt x z" if "z \<in> set (y # ys)" for z
    proof -
      from that Cons.prems(2) obtain tz where tz: "getTime rt (date z) = Some tz" by auto
      have "tz \<le> ty"
      proof (cases "z = y")
        case True
        with ty tz show ?thesis by simp
      next
        case False
        with that have "z \<in> set ys" by simp
        with Cons.prems(1) have "newerOrEqual rt y z" by simp
        then show ?thesis using newerOrEqual_valid [OF ty tz] by simp
      qed
      with xy show ?thesis using newerOrEqual_valid [OF tx tz] by simp
    qed
    with True Cons.prems(1) show ?thesis by simp
  next
    case False
    then have yx: "newerOrEqual rt y x"
      using compareDates_valid [OF tx ty] newerOrEqual_valid [OF ty tx] by simp
    from Cons.prems have "sorted_wrt (newerOrEqual rt) (insertBy (compareDates rt) x ys)"
      by (intro Cons.IH) simp_all
    moreover have "\<forall>z \<in> set (insertBy (compareDates rt) x ys). newerOrEqual rt y z"
      using yx Cons.prems(1) by (simp add: set_insertBy)
    ultimately show ?thesis using False by simp
  qed
qed

lemma sorted_sortBy:
  assumes "\<forall>p \<in> set xs. getTime rt (date p) \<noteq> None"
  shows "sorted_wrt (newerOrEqual rt) (sortBy (compareDates rt) xs)"
  using assms
proof (induction xs)
  case Nil
  then show ?case by simp
next
  case (Cons x xs)
  then have "sorted_wrt (newerOrEqual rt) (sortBy (compareDates rt) xs)" by simp
  moreover from Cons.prems have "\<forall>p \<in> set (x # sortBy (compareDates rt) xs). getTime rt (date p) \<noteq> None"
    by (simp add: set_sortBy)
  ultimately show ?case by (simp add: sorted_insertBy)
qed

lemma getAllPosts_Resolved:
  "getAllPosts rt files =
     Resolved (case mapPosts rt 0 files of Inl e \<Rightarrow> [] | Inr ps \<Rightarrow> sortBy (compareDates rt) ps)"
  by (simp add: getAllPosts_def split: sum.splits)

lemma getAllPosts_set:
  assumes "getAllPosts rt files = Resolved ps"
  shows "(\<exists>e. mapPosts rt 0 files = Inl e \<and> ps = []) \<or>
         (\<exists>qs. mapPosts rt 0 files = Inr qs \<and> ps = sortBy (compareDates rt) qs)"
  using assms by (auto simp: getAllPosts_def split: sum.splits)





text \<open>
  C1 at the input \<^verbatim>\<open>Read [the guide](http://example.com) now please\<close>: the template
  \<^verbatim>\<open>$1\<close> refers to a capturing group that the expression for links does not have, so
  the link is replaced by the two characters \<^verbatim>\<open>$1\<close> and not by its text.
\<close>

theorem generateMetaDescription_link_literal:
  "generateMetaDescription ''Read [the guide](http://example.com) now please'' = ''Read $1 now...'' \<and>
   spec_plainText ''Read [the guide](http://example.com) now please'' = ''Read the guide now please''"
  by code_simp


text \<open>
  Whatever the plain text is, the description is a prefix of it of at most 160 characters
  followed by three dots.
\<close>

lemma generateMetaDescription_shape:
  "\<exists>n \<le> 160. generateMetaDescription c = take n (plainText c) @ ''...''"
proof -
  define t where "t = substring (plainText c) 0 160"
  have t: "t = take 160 (plainText c)"
    unfolding t_def substring_def substr_def by (simp add: min_def)
  define k where "k = nat (min (max (max 0 (lastIndexOf t (CHR '' ''))) 0) (int (length t)))"
  have "substring t 0 (lastIndexOf t (CHR '' '')) = take k t"
    unfolding substring_def substr_def k_def by (simp add: min_def max_def)
  then have g: "generateMetaDescription c = take k t @ ''...''"
    unfolding generateMetaDescription_def Let_def t_def by simp
  have "take k t = take (min k 160) (plainText c)"
    unfolding t by (simp add: min.commute)
  with g have "generateMetaDescription c = take (min k 160) (plainText c) @ ''...''" by simp
  moreover have "min k 160 \<le> 160" by simp
  ultimately show ?thesis by blast
qed

text \<open>
  C9, as stated, fails when a date does not parse: the post of the first file below has
  the date \<^verbatim>\<open>soon\<close>, whose time stamp is \<^verbatim>\<open>NaN\<close>, and no order of the two posts puts
  a date greater than or equal to the other first.
\<close>

theorem getAllPosts_order_counterexample:
  "(let rt = \<lparr>slugify = Inr,
               getTime = (\<lambda>d. if d = ''2024-01-01'' then Some 1704067200000 else None),
               nowISO = (\<lambda>i. ''2024-06-01T00:00:00.000Z'')\<rparr>
    in case getAllPosts rt
        [(''/blog-content/a.md'', ''---'' @ [NL] @ ''date: soon'' @ [NL] @ ''---'' @ [NL] @ ''A''),
         (''/blog-content/b.md'', ''---'' @ [NL] @ ''date: 2024-01-01'' @ [NL] @ ''---'' @ [NL] @ ''B'')] of
         Resolved ps \<Rightarrow>
           length ps = 2 \<and> \<not> successively (newerOrEqual rt) ps \<and>
           \<not> successively (newerOrEqual rt) (rev ps)
       | Rejected e \<Rightarrow> False)"
  by code_simp


text \<open>
  C9 (amended). When the date of every returned post parses to a valid time stamp, the
  posts are returned newest first: for every pair of adjacent posts the date of the first
  is greater than or equal to the date of the second.
\<close>

theorem getAllPosts_newest_first:
  assumes "getAllPosts rt files = Resolved ps"
    and "\<forall>p \<in> set ps. getTime rt (date p) \<noteq> None"
  shows "successively (newerOrEqual rt) ps"
proof -
  from getAllPosts_set [OF assms(1)] show ?thesis
  proof
    assume "\<exists>e. mapPosts rt 0 files = Inl e \<and> ps = []"
    then show ?thesis by auto
  next
    assume "\<exists>qs. mapPosts rt 0 files = Inr qs \<and> ps = sortBy (compareDates rt) qs"
    then obtain qs where ps: "ps = sortBy (compareDates rt) qs" by blast
    with assms(2) have "\<forall>p \<in> set qs. getTime rt (date p) \<noteq> None"
      by (simp add: set_sortBy)
    then have "sorted_wrt (newerOrEqual rt) ps"
      unfolding ps by (rule sorted_sortBy)
    then show ?thesis by (rule successively_if_sorted_wrt)
  qed
qed


theorem getAllPosts_newest_first_witness:
  "(let rt = \<lparr>slugify = Inr,
           getTime = (\<lambda>d. if d = ''2024-01-01'' then Some 1704067200000
                          else if d = ''2024-03-01'' then Some 1709251200000 else None),
           nowISO = (\<lambda>i. ''2024-06-01T00:00:00.000Z'')\<rparr>;
        ps = [\<lparr>title = ''Untitled Post'', slug = ''Untitled Post'', date = ''2024-03-01'',
             content = ''B'', excerpt = Some ''...'', author = Some ''NichePinner Team'',
             featuredImage = None\<rparr>,
            \<lparr>title = ''Untitled Post'', slug = ''Untitled Post'', date = ''2024-01-01'',
             content = ''A'', excerpt = Some ''...'', author = Some ''NichePinner Team'',
             featuredImage = None\<rparr>]
    in getAllPosts rt
         [(''/blog-content/a.md'', ''---'' @ [NL] @ ''date: 2024-01-01'' @ [NL] @ ''---'' @ [NL] @ ''A''),
              (''/blog-content/b.md'', ''---'' @ [NL] @ ''date: 2024-03-01'' @ [NL] @ ''---'' @ [NL] @ ''B'')] = Resolved ps \<and>
       list_all (\<lambda>p. getTime rt (date p) \<noteq> None) ps \<and>
       successively (newerOrEqual rt) ps)"
proof -
  let ?rt = "\<lparr>slugify = Inr,
           getTime = (\<lambda>d. if d = ''2024-01-01'' then Some 1704067200000
                          else if d = ''2024-03-01'' then Some 1709251200000 else None),
           nowISO = (\<lambda>i. ''2024-06-01T00:00:00.000Z'')\<rparr>"
  let ?files = "[(''/blog-content/a.md'', ''---'' @ [NL] @ ''date: 2024-01-01'' @ [NL] @ ''---'' @ [NL] @ ''A''),
              (''/blog-content/b.md'', ''---'' @ [NL] @ ''date: 2024-03-01'' @ [NL] @ ''---'' @ [NL] @ ''B'')]"
  let ?ps = "[\<lparr>title = ''Untitled Post'', slug = ''Untitled Post'', date = ''2024-03-01'',
             content = ''B'', excerpt = Some ''...'', author = Some ''NichePinner Team'',
             featuredImage = None\<rparr>,
            \<lparr>title = ''Untitled Post'', slug = ''Untitled Post'', date = ''2024-01-01'',
             content = ''A'', excerpt = Some ''...'', author = Some ''NichePinner Team'',
             featuredImage = None\<rparr>]"
  have g: "getAllPosts ?rt ?files = Resolved ?ps" by code_simp
  have v: "\<forall>p \<in> set ?ps. getTime ?rt (date p) \<noteq> None" by simp
  from getAllPosts_newest_first [OF g v] g v show ?thesis
    by (simp only: Let_def list_all_iff)
qed

text \<open>
  C10. \<^verbatim>\<open>getAllPosts\<close> never rejects: it always resolves with a list, with the empty
  list when an exception ends the derivation of the posts, and the effect of
  \<^verbatim>\<open>BlogList\<close> that awaits it leaves the error message as it was.
\<close>

theorem getAllPosts_never_rejects:
  "(\<exists>ps. getAllPosts rt files = Resolved ps) \<and>
   (\<forall>e. mapPosts rt 0 files = Inl e \<longrightarrow> getAllPosts rt files = Resolved []) \<and>
   bl_error (BlogList_fetch (getAllPosts rt files) st) = bl_error st"
proof -
  have "\<exists>ps. getAllPosts rt files = Resolved ps"
    using getAllPosts_Resolved by blast
  moreover have "\<forall>e. mapPosts rt 0 files = Inl e \<longrightarrow> getAllPosts rt files = Resolved []"
    by (simp add: getAllPosts_def)
  moreover have "bl_error (BlogList_fetch (getAllPosts rt files) st) = bl_error st"
    by (simp add: getAllPosts_Resolved BlogList_fetch_def)
  ultimately show ?thesis by blast
qed

theorem getAllPosts_never_rejects_witness:
  "(let rt = \<lparr>slugify = (\<lambda>t. Inl (Error ''slugify: string argument expected'')),
               getTime = (\<lambda>d. None), nowISO = (\<lambda>i. ''2024-06-01T00:00:00.000Z'')\<rparr>
    in mapPosts rt 0 [(''/blog-content/a.md'', ''# A'')]
         = Inl (Error ''slugify: string argument expected'') \<and>
       getAllPosts rt [(''/blog-content/a.md'', ''# A'')] = Resolved [] \<and>
       bl_error (BlogList_fetch (getAllPosts rt [(''/blog-content/a.md'', ''# A'')])
                   BlogList_initial) = None)"
proof -
  let ?rt = "\<lparr>slugify = (\<lambda>t. Inl (Error ''slugify: string argument expected'')),
               getTime = (\<lambda>d. None), nowISO = (\<lambda>i. ''2024-06-01T00:00:00.000Z'')\<rparr>"
  let ?files = "[(''/blog-content/a.md'', ''# A'')]"
  have m: "mapPosts ?rt 0 ?files = Inl (Error ''slugify: string argument expected'')"
    by (simp add: buildPost_def createSlug_def Let_def)
  from getAllPosts_never_rejects [of ?rt ?files BlogList_initial] m show ?thesis
    by (simp add: Let_def BlogList_initial_def BlogList_fetch_def)
qed

lemma getPostBySlug_Resolved:
  assumes "getAllPosts rt files = Resolved ps"
  shows "getPostBySlug rt files s = Resolved (find (\<lambda>post. slug post = s) ps)"
  using assms by (simp add: getPostBySlug_def)

lemma BlogPost_fetch_message:
  assumes "getPostBySlug rt files s = Resolved r" "s \<noteq> []"
  shows "BlogPost_message (BlogPost_fetch rt files (Some s) BlogPost_initial)
           = (case r of None \<Rightarrow> Some ''Post not found'' | Some p \<Rightarrow> None)"
  using assms
  by (cases r) (simp_all add: BlogPost_fetch_def BlogPost_message_def BlogPost_initial_def)

text \<open>
  C8. \<^verbatim>\<open>getPostBySlug\<close> resolves with the first post of the list whose slug is the
  one asked for, and with null when no post has that slug; after its effect the
  \<^verbatim>\<open>BlogPost\<close> view shows the message \<^verbatim>\<open>Post not found\<close> exactly when there is no slug
  parameter (it is undefined or empty, the test \<^verbatim>\<open>!slug\<close>) or the lookup resolved with
  null.
\<close>

theorem getPostBySlug_lookup:
  assumes "getAllPosts rt files = Resolved ps"
  shows "((\<exists>p \<in> set ps. slug p = s) \<longrightarrow>
            (\<exists>i < length ps. getPostBySlug rt files s = Resolved (Some (ps ! i)) \<and>
                              slug (ps ! i) = s \<and> (\<forall>j < i. slug (ps ! j) \<noteq> s))) \<and>
         ((\<forall>p \<in> set ps. slug p \<noteq> s) \<longrightarrow> getPostBySlug rt files s = Resolved None) \<and>
         (BlogPost_message (BlogPost_fetch rt files slugParam BlogPost_initial)
            = Some ''Post not found'' \<longleftrightarrow>
          slugParam = None \<or> slugParam = Some [] \<or>
          (\<exists>s'. slugParam = Some s' \<and> getPostBySlug rt files s' = Resolved None))"
proof (intro conjI impI)
  assume "\<exists>p \<in> set ps. slug p = s"
  then have "find (\<lambda>post. slug post = s) ps \<noteq> None"
    by (auto simp: find_None_iff)
  then obtain p where f: "find (\<lambda>post. slug post = s) ps = Some p" by blast
  then obtain i where "i < length ps" "slug (ps ! i) = s" "p = ps ! i"
    "\<forall>j < i. slug (ps ! j) \<noteq> s"
    unfolding find_Some_iff by blast
  with f getPostBySlug_Resolved [OF assms, of s]
  show "\<exists>i < length ps. getPostBySlug rt files s = Resolved (Some (ps ! i)) \<and>
                        slug (ps ! i) = s \<and> (\<forall>j < i. slug (ps ! j) \<noteq> s)"
    by auto
next
  assume "\<forall>p \<in> set ps. slug p \<noteq> s"
  then have "find (\<lambda>post. slug post = s) ps = None"
    by (simp add: find_None_iff)
  with getPostBySlug_Resolved [OF assms, of s]
  show "getPostBySlug rt files s = Resolved None" by simp
next
  show "BlogPost_message (BlogPost_fetch rt files slugParam BlogPost_initial)
            = Some ''Post not found'' \<longleftrightarrow>
          slugParam = None \<or> slugParam = Some [] \<or>
          (\<exists>s'. slugParam = Some s' \<and> getPostBySlug rt files s' = Resolved None)"
  proof (cases slugParam)
    case None
    then show ?thesis
      by (simp add: BlogPost_fetch_def BlogPost_message_def BlogPost_initial_def)
  next
    case (Some s')
    show ?thesis
    proof (cases "s' = []")
      case True
      with Some show ?thesis
        by (simp add: BlogPost_fetch_def BlogPost_message_def BlogPost_initial_def)
    next
      case False
      let ?r = "find (\<lambda>post. slug post = s') ps"
      have r: "getPostBySlug rt files s' = Resolved ?r"
        by (rule getPostBySlug_Resolved [OF assms])
      from BlogPost_fetch_message [OF r False] Some False r show ?thesis
        by (cases ?r) simp_all
    qed
  qed
qed

theorem getPostBySlug_lookup_witness:
  "(let rt = \<lparr>slugify = Inr, getTime = (\<lambda>d. None),
           nowISO = (\<lambda>i. ''2024-06-01T00:00:00.000Z'')\<rparr>;
        files = [(''/blog-content/a.md'', ''---'' @ [NL] @ ''title: a'' @ [NL] @ ''---'' @ [NL] @ ''A''),
              (''/blog-content/b.md'', ''---'' @ [NL] @ ''title: b'' @ [NL] @ ''---'' @ [NL] @ ''B'')];
        pa = \<lparr>title = ''a'', slug = ''a'', date = ''2024-06-01T00:00:00.000Z'', content = ''A'',
            excerpt = Some ''...'', author = Some ''NichePinner Team'', featuredImage = None\<rparr>;
        pb = \<lparr>title = ''b'', slug = ''b'', date = ''2024-06-01T00:00:00.000Z'', content = ''B'',
            excerpt = Some ''...'', author = Some ''NichePinner Team'', featuredImage = None\<rparr>
    in getAllPosts rt files = Resolved [pa, pb] \<and>
       getPostBySlug rt files ''b'' = Resolved (Some pb) \<and>
       getPostBySlug rt files ''zzz'' = Resolved None \<and>
       BlogPost_message (BlogPost_fetch rt files (Some ''zzz'') BlogPost_initial)
         = Some ''Post not found'')"
proof -
  let ?rt = "\<lparr>slugify = Inr, getTime = (\<lambda>d. None),
           nowISO = (\<lambda>i. ''2024-06-01T00:00:00.000Z'')\<rparr>"
  let ?files = "[(''/blog-content/a.md'', ''---'' @ [NL] @ ''title: a'' @ [NL] @ ''---'' @ [NL] @ ''A''),
              (''/blog-content/b.md'', ''---'' @ [NL] @ ''title: b'' @ [NL] @ ''---'' @ [NL] @ ''B'')]"
  let ?pa = "\<lparr>title = ''a'', slug = ''a'', date = ''2024-06-01T00:00:00.000Z'', content = ''A'',
            excerpt = Some ''...'', author = Some ''NichePinner Team'', featuredImage = None\<rparr>"
  let ?pb = "\<lparr>title = ''b'', slug = ''b'', date = ''2024-06-01T00:00:00.000Z'', content = ''B'',
            excerpt = Some ''...'', author = Some ''NichePinner Team'', featuredImage = None\<rparr>"
  have g: "getAllPosts ?rt ?files = Resolved [?pa, ?pb]" by code_simp
  have b: "getPostBySlug ?rt ?files ''b'' = Resolved (Some ?pb)"
    using getPostBySlug_lookup [OF g, of "''b''" None] by (auto simp: less_Suc_eq nth_Cons')
  have z: "getPostBySlug ?rt ?files ''zzz'' = Resolved None"
    using getPostBySlug_lookup [OF g, of "''zzz''" None] by simp
  have m: "BlogPost_message (BlogPost_fetch ?rt ?files (Some ''zzz'') BlogPost_initial)
             = Some ''Post not found''"
    using getPostBySlug_lookup [OF g, of "''zzz''" "Some ''zzz''"] z by simp
  from g b z m show ?thesis by (simp only: Let_def)
qed


section \<open>Properties of extractFrontMatter\<close>

lemma classMatches_char:
  assumes "\<not> ignoreCase f"
  shows "classMatches f False [Range c c] x = (x = c)"
proof -
  have "((of_char c :: nat) \<le> of_char x \<and> (of_char x :: nat) \<le> of_char c)
          = ((of_char x :: nat) = of_char c)"
    by auto
  also have "\<dots> = (x = c)" by (rule of_char_eq_iff)
  finally have "((of_char c :: nat) \<le> of_char x \<and> (of_char x :: nat) \<le> of_char c) = (x = c)" .
  with assms show ?thesis by (simp add: classMatches_def)
qed







lemma noFlags_sel [simp]: "\<not> ignoreCase noFlags" "\<not> multiline noFlags"
  by (simp_all add: noFlags_def)


























section \<open>Properties of extractFirstImage\<close>









































section \<open>Properties of slug generation\<close>

lemma replaceLoop_class_filter:
  "replaceLoop f (Cls neg items) s (\<lambda>m. []) pos rest 0
     = filter (\<lambda>c. \<not> classMatches f neg items c) rest"
  by (induction rest arbitrary: pos) simp_all

lemma run_star_class:
  "run f s [Match (Rep True 0 None (Cls False items))] pos rest cp
     = Some (pos + length (takeWhile (classMatches f False items) rest), cp)"
proof (induction rest arbitrary: pos)
  case Nil
  show ?case by simp
next
  case (Cons c cs)
  from Cons [of "Suc pos"] show ?case by simp
qed

lemma run_plus_class:
  "run f s [Match (rePlus (Cls False items))] pos rest cp
     = (case rest of
          [] \<Rightarrow> None
        | c # cs \<Rightarrow>
            if classMatches f False items c
            then Some (Suc pos + length (takeWhile (classMatches f False items) cs), cp)
            else None)"
proof (cases rest)
  case Nil
  then show ?thesis by (simp add: rePlus_def)
next
  case (Cons c cs)
  have first: "run f s [Match (Rep True 1 None (Cls False items))] pos (c # cs) cp
          = (if classMatches f False items c
             then run f s [Match (Rep True 0 None (Cls False items))] (Suc pos) cs cp
             else None)"
    by simp
  show ?thesis
    unfolding Cons rePlus_def first by (simp only: run_star_class list.case add_Suc)
qed

lemma replaceLoop_squeeze:
  "replaceLoop f (rePlus (Cls False items)) s (\<lambda>m. ''-'') pos rest 0
     = squeeze (classMatches f False items) False rest \<and>
   replaceLoop f (rePlus (Cls False items)) s (\<lambda>m. ''-'') pos rest
       (length (takeWhile (classMatches f False items) rest))
     = squeeze (classMatches f False items) True rest"
proof (induction rest arbitrary: pos)
  case Nil
  show ?case by (simp add: run_plus_class)
next
  case (Cons c cs)
  let ?P = "classMatches f False items"
  from Cons [of "Suc pos"]
  have ih0: "replaceLoop f (rePlus (Cls False items)) s (\<lambda>m. ''-'') (Suc pos) cs 0
               = squeeze ?P False cs"
    and ih1: "replaceLoop f (rePlus (Cls False items)) s (\<lambda>m. ''-'') (Suc pos) cs
                (length (takeWhile ?P cs)) = squeeze ?P True cs"
    by simp_all
  show ?case
  proof (cases "?P c")
    case True
    with ih1 show ?thesis by (simp add: run_plus_class)
  next
    case False
    with ih0 show ?thesis by (simp add: run_plus_class)
  qed
qed

lemma run_edge_later:
  assumes "0 < pos"
  shows "run noFlags s [Match re_edgeHyphens] pos rest Map.empty
           = (case rest of
                [] \<Rightarrow> None
              | [c] \<Rightarrow> if c = CHR ''-'' then Some (Suc pos, Map.empty) else None
              | c # d # cs \<Rightarrow>
                  if c = CHR ''-'' \<and> d = CHR ''-''
                  then run noFlags s [Match re_edgeHyphens] pos rest Map.empty
                  else None)"
  using assms
  by (auto simp add: re_edgeHyphens_def rePlus_def reChar_def classMatches_char
      split: list.splits)

lemma run_edge_start:
  "run noFlags s [Match re_edgeHyphens] 0 rest Map.empty
     = (case rest of
          [] \<Rightarrow> None
        | [c] \<Rightarrow> if c = CHR ''-'' then Some (1, Map.empty) else None
        | c # d # cs \<Rightarrow>
            if c \<noteq> CHR ''-'' then None
            else if d \<noteq> CHR ''-'' then Some (1, Map.empty)
            else run noFlags s [Match re_edgeHyphens] 0 rest Map.empty)"
  by (auto simp add: re_edgeHyphens_def rePlus_def reChar_def classMatches_char
      split: list.splits)


lemma replaceLoop_edge_later:
  assumes "hyphensSingle b v" "0 < pos"
  shows "replaceLoop noFlags re_edgeHyphens s (\<lambda>m. []) pos v 0 = dropLastHyphen v"
  using assms
proof (induction v arbitrary: pos b rule: dropLastHyphen.induct)
  case 1
  then show ?case by (simp add: run_edge_later)
next
  case (2 c)
  then show ?case by (simp add: run_edge_later)
next
  case (3 c d cs)
  from "3.prems" have nn: "\<not> (c = CHR ''-'' \<and> d = CHR ''-'')"
    by (auto split: if_splits)
  from "3.prems" obtain b' where "hyphensSingle b' (d # cs)"
    by (cases "c = CHR ''-''") auto
  then have "replaceLoop noFlags re_edgeHyphens s (\<lambda>m. []) (Suc pos) (d # cs) 0
               = dropLastHyphen (d # cs)"
    by (rule "3.IH") simp
  moreover have "run noFlags s [Match re_edgeHyphens] pos (c # d # cs) Map.empty = None"
    using nn "3.prems"(2) by (subst run_edge_later) auto
  ultimately show ?case by simp
qed

lemma replaceLoop_edge_start:
  assumes "hyphensSingle False v"
  shows "replaceLoop noFlags re_edgeHyphens s (\<lambda>m. []) 0 v 0 = stripEnds v"
proof (cases v)
  case Nil
  then show ?thesis by (simp add: run_edge_start stripEnds_def)
next
  case (Cons c cs)
  show ?thesis
  proof (cases "c = CHR ''-''")
    case True
    with assms Cons have hs: "hyphensSingle True cs" by simp
    then have later: "replaceLoop noFlags re_edgeHyphens s (\<lambda>m. []) (Suc 0) cs 0
                        = dropLastHyphen cs"
      by (rule replaceLoop_edge_later) simp
    have "run noFlags s [Match re_edgeHyphens] 0 (c # cs) Map.empty = Some (1, Map.empty)"
    proof (cases cs)
      case Nil
      with True show ?thesis by (subst run_edge_start) simp
    next
      case (Cons d ds)
      with hs have "d \<noteq> CHR ''-''" by (auto split: if_splits)
      with True Cons show ?thesis by (subst run_edge_start) simp
    qed
    with later True Cons show ?thesis by (simp add: stripEnds_def)
  next
    case False
    with assms Cons have hs: "hyphensSingle False cs" by simp
    then have later: "replaceLoop noFlags re_edgeHyphens s (\<lambda>m. []) (Suc 0) cs 0
                        = dropLastHyphen cs"
      by (rule replaceLoop_edge_later) simp
    have "run noFlags s [Match re_edgeHyphens] 0 (c # cs) Map.empty = None"
      using False by (subst run_edge_start) (simp split: list.splits)
    with later False Cons show ?thesis by (simp add: stripEnds_def)
  qed
qed

lemma createSlug_fallback_eq:
  "createSlug_fallback t
     = replaceLoop noFlags re_edgeHyphens
         (squeeze sepChar False (filter keepChar (toLowerCase t))) (\<lambda>m. []) 0
         (squeeze sepChar False (filter keepChar (toLowerCase t))) 0"
proof -
  have r1: "replaceAllStr noFlags re_notSlugChar u [] = filter keepChar u" for u
    unfolding replaceAllStr_def replaceAll_def re_notSlugChar_def keepChar_def
    by (simp add: replaceLoop_class_filter)
  have r2: "replaceAllStr noFlags re_separators u ''-'' = squeeze sepChar False u" for u
    unfolding replaceAllStr_def replaceAll_def re_separators_def sepChar_def
    using replaceLoop_squeeze [of noFlags _ u 0 u] by simp
  have r3: "replaceAllStr noFlags re_edgeHyphens u [] = replaceLoop noFlags re_edgeHyphens u (\<lambda>m. []) 0 u 0" for u
    unfolding replaceAllStr_def replaceAll_def by simp
  show ?thesis
    unfolding createSlug_fallback_def r1 r2 r3 ..
qed


lemma hyphen_iff: "c = CHR ''-'' \<longleftrightarrow> (of_char c :: nat) = 45"
proof -
  have "(of_char c :: nat) = of_char (CHR ''-'') \<longleftrightarrow> c = CHR ''-''"
    by (rule of_char_eq_iff)
  then show ?thesis by simp
qed

lemma keepChar_iff:
  "keepChar c \<longleftrightarrow>
     (65 \<le> (of_char c :: nat) \<and> (of_char c :: nat) \<le> 90) \<or>
     (97 \<le> (of_char c :: nat) \<and> (of_char c :: nat) \<le> 122) \<or>
     (48 \<le> (of_char c :: nat) \<and> (of_char c :: nat) \<le> 57) \<or>
     (of_char c :: nat) = 95 \<or> isWhiteSpace c \<or> (of_char c :: nat) = 45"
  by (auto simp add: keepChar_def classMatches_def)

lemma sepChar_iff:
  "sepChar c \<longleftrightarrow> isWhiteSpace c \<or> (of_char c :: nat) = 95 \<or> (of_char c :: nat) = 45"
  by (auto simp add: sepChar_def classMatches_def)

lemma toLowerChar_not_capital:
  "\<not> (65 \<le> (of_char (toLowerChar c) :: nat) \<and> (of_char (toLowerChar c) :: nat) \<le> 90)"
  using toLowerChar_not_upper [of c] by (auto simp: isUpperLetter_def)

lemma slugLetter_from_kept:
  assumes "keepChar c" "\<not> sepChar c"
    and "\<not> (65 \<le> (of_char c :: nat) \<and> (of_char c :: nat) \<le> 90)"
  shows "isSlugLetter c"
  using assms unfolding keepChar_iff sepChar_iff isSlugLetter_def by blast

lemma slugLetter_props:
  assumes "isSlugLetter c"
  shows "keepChar c" "\<not> sepChar c" "c \<noteq> CHR ''-''" "toLowerChar c = c"
proof -
  from assms have r: "(97 \<le> (of_char c :: nat) \<and> (of_char c :: nat) \<le> 122) \<or>
     (48 \<le> (of_char c :: nat) \<and> (of_char c :: nat) \<le> 57)"
    by (simp add: isSlugLetter_def)
  then show "keepChar c" unfolding keepChar_iff by blast
  from r show "\<not> sepChar c" unfolding sepChar_iff isWhiteSpace_def by auto
  from r show "c \<noteq> CHR ''-''" unfolding hyphen_iff by auto
  from r show "toLowerChar c = c" by (auto simp: toLowerChar_def isUpperLetter_def)
qed

lemma hyphen_props: "keepChar (CHR ''-'')" "sepChar (CHR ''-'')" "toLowerChar (CHR ''-'') = CHR ''-''"
  by (simp_all add: keepChar_iff sepChar_iff toLowerChar_def isUpperLetter_def)

lemma squeeze_single:
  assumes "\<forall>c \<in> set u. keepChar c \<and> \<not> (65 \<le> (of_char c :: nat) \<and> (of_char c :: nat) \<le> 90)"
  shows "hyphensSingle b (squeeze sepChar b u)"
  using assms
proof (induction u arbitrary: b)
  case Nil
  show ?case by simp
next
  case (Cons c cs)
  then have ih: "hyphensSingle b' (squeeze sepChar b' cs)" for b' by simp
  show ?case
  proof (cases "sepChar c")
    case True
    with ih [of True] show ?thesis by simp
  next
    case False
    with Cons.prems have "isSlugLetter c" by (simp add: slugLetter_from_kept)
    with False ih [of False] slugLetter_props(3) [of c] show ?thesis by simp
  qed
qed

lemma dropLastHyphen_nonempty: "d \<noteq> CHR ''-'' \<Longrightarrow> dropLastHyphen (d # r) \<noteq> []"
  by (cases r) simp_all

lemma dropLastHyphen_inside:
  assumes "hyphensSingle b v"
  shows "hyphensInside b (dropLastHyphen v)"
  using assms
proof (induction v arbitrary: b rule: dropLastHyphen.induct)
  case 1
  show ?case by simp
next
  case (2 c)
  then show ?case by (simp split: if_splits)
next
  case (3 c d cs)
  show ?case
  proof (cases "c = CHR ''-''")
    case True
    with "3.prems" have nb: "\<not> b" and hs: "hyphensSingle True (d # cs)"
      by (auto split: if_splits)
    from hs have "d \<noteq> CHR ''-''" by (auto split: if_splits)
    then have "dropLastHyphen (d # cs) \<noteq> []" by (rule dropLastHyphen_nonempty)
    with True nb "3.IH" [OF hs] show ?thesis by simp
  next
    case False
    with "3.prems" have "isSlugLetter c" and hs: "hyphensSingle False (d # cs)" by simp_all
    with False "3.IH" [OF hs] show ?thesis by simp
  qed
qed

lemma stripEnds_inside:
  assumes "hyphensSingle False v"
  shows "hyphensInside True (stripEnds v)"
proof (cases v)
  case Nil
  then show ?thesis by (simp add: stripEnds_def)
next
  case (Cons c cs)
  show ?thesis
  proof (cases "c = CHR ''-''")
    case True
    with assms Cons have "hyphensSingle True cs" by simp
    then have "hyphensInside True (dropLastHyphen cs)" by (rule dropLastHyphen_inside)
    with True Cons show ?thesis by (simp add: stripEnds_def)
  next
    case False
    with assms Cons have l: "isSlugLetter c" and "hyphensSingle False cs" by simp_all
    then have "hyphensInside False (dropLastHyphen cs)" by (simp add: dropLastHyphen_inside)
    with False l Cons show ?thesis by (simp add: stripEnds_def)
  qed
qed

lemma inside_single: "hyphensInside b w \<Longrightarrow> hyphensSingle b w"
  by (induction w arbitrary: b) (auto split: if_splits)

lemma inside_chars:
  assumes "hyphensInside b w" "c \<in> set w"
  shows "isSlugLetter c \<or> c = CHR ''-''"
  using assms by (induction w arbitrary: b) (auto split: if_splits)

lemma inside_lower: "hyphensInside b w \<Longrightarrow> toLowerCase w = w"
proof -
  assume h: "hyphensInside b w"
  have "toLowerChar c = c" if "c \<in> set w" for c
    using inside_chars [OF h that] slugLetter_props(4) [of c] hyphen_props(3) by auto
  then show ?thesis unfolding toLowerCase_def by (simp add: map_idI)
qed

lemma inside_filter: "hyphensInside b w \<Longrightarrow> filter keepChar w = w"
proof -
  assume h: "hyphensInside b w"
  have "keepChar c" if "c \<in> set w" for c
    using inside_chars [OF h that] slugLetter_props(1) [of c] hyphen_props(1) by auto
  then show ?thesis by (simp add: filter_id_conv)
qed

lemma inside_squeeze:
  assumes "hyphensInside b w"
  shows "squeeze sepChar False w = w \<and> (b \<longrightarrow> squeeze sepChar True w = w)"
  using assms
proof (induction w arbitrary: b)
  case Nil
  show ?case by simp
next
  case (Cons c cs)
  show ?case
  proof (cases "c = CHR ''-''")
    case True
    with Cons.prems have nb: "\<not> b" and h: "hyphensInside True cs" by simp_all
    from Cons.IH [OF h] have "squeeze sepChar True cs = cs" by simp
    with True nb hyphen_props(2) show ?thesis by simp
  next
    case False
    with Cons.prems have l: "isSlugLetter c" and h: "hyphensInside False cs" by simp_all
    from Cons.IH [OF h] have "squeeze sepChar False cs = cs" by simp
    with slugLetter_props(2) [OF l] show ?thesis by simp
  qed
qed

lemma inside_dropLast: "hyphensInside b w \<Longrightarrow> dropLastHyphen w = w"
proof (induction w arbitrary: b rule: dropLastHyphen.induct)
  case 1
  show ?case by simp
next
  case (2 c)
  then show ?case by (simp split: if_splits)
next
  case (3 c d cs)
  from "3.prems" obtain b' where "hyphensInside b' (d # cs)"
    by (cases "c = CHR ''-''") auto
  then have "dropLastHyphen (d # cs) = d # cs" by (rule "3.IH")
  then show ?case by simp
qed

lemma inside_stripEnds:
  assumes "hyphensInside True w"
  shows "stripEnds w = w"
proof (cases w)
  case Nil
  then show ?thesis by (simp add: stripEnds_def)
next
  case (Cons c cs)
  with assms have nh: "c \<noteq> CHR ''-''" and h: "hyphensInside False cs"
    by (auto split: if_splits)
  from inside_dropLast [OF h] nh Cons show ?thesis by (simp add: stripEnds_def)
qed

lemma createSlug_fallback_stripEnds:
  "createSlug_fallback t = stripEnds (squeeze sepChar False (filter keepChar (toLowerCase t)))"
proof -
  have "\<forall>c \<in> set (filter keepChar (toLowerCase t)).
          keepChar c \<and> \<not> (65 \<le> (of_char c :: nat) \<and> (of_char c :: nat) \<le> 90)"
    using toLowerChar_not_capital by (auto simp: toLowerCase_def)
  then have "hyphensSingle False (squeeze sepChar False (filter keepChar (toLowerCase t)))"
    by (rule squeeze_single)
  then show ?thesis
    unfolding createSlug_fallback_eq by (rule replaceLoop_edge_start)
qed

lemma createSlug_fallback_shape: "hyphensInside True (createSlug_fallback t)"
proof -
  have "\<forall>c \<in> set (filter keepChar (toLowerCase t)).
          keepChar c \<and> \<not> (65 \<le> (of_char c :: nat) \<and> (of_char c :: nat) \<le> 90)"
    using toLowerChar_not_capital by (auto simp: toLowerCase_def)
  then have "hyphensSingle False (squeeze sepChar False (filter keepChar (toLowerCase t)))"
    by (rule squeeze_single)
  then show ?thesis
    unfolding createSlug_fallback_stripEnds by (rule stripEnds_inside)
qed

lemma createSlug_fallback_fixed:
  assumes "hyphensInside True w"
  shows "createSlug_fallback w = w"
  using inside_lower [OF assms] inside_filter [OF assms] inside_squeeze [OF assms]
    inside_stripEnds [OF assms]
  by (simp add: createSlug_fallback_stripEnds)

lemma createSlug_fallback_idempotent:
  "createSlug_fallback (createSlug_fallback t) = createSlug_fallback t"
  by (rule createSlug_fallback_fixed) (rule createSlug_fallback_shape)

text \<open>
  C5. With the package \<^verbatim>\<open>slugify\<close> modelled as stated, slug generation is
  deterministic and idempotent: the slug that \<^verbatim>\<open>createSlug\<close> returns is a function of
  the title alone, and \<^verbatim>\<open>createSlug\<close> applied to a slug returns that slug.
\<close>

theorem createSlug_idempotent:
  assumes "slugify rt = (\<lambda>t. Inr (spec_slugify t))"
  shows "createSlug rt t = Inr (spec_slugify t) \<and>
         createSlug rt (spec_slugify t) = createSlug rt t"
  using assms
  by (simp add: createSlug_def spec_slugify_def createSlug_fallback_idempotent)

theorem createSlug_idempotent_witness:
  "(let rt = \<lparr>slugify = (\<lambda>t. Inr (spec_slugify t)), getTime = (\<lambda>d. None),
               nowISO = (\<lambda>i. ''2024-06-01T00:00:00.000Z'')\<rparr>
    in slugify rt = (\<lambda>t. Inr (spec_slugify t)) \<and>
       createSlug rt ''  Hello,  World_2024 -- again! '' = Inr ''hello-world-2024-again'' \<and>
       createSlug rt ''hello-world-2024-again'' = Inr ''hello-world-2024-again'')"
proof -
  let ?rt = "\<lparr>slugify = (\<lambda>t. Inr (spec_slugify t)), getTime = (\<lambda>d. None),
               nowISO = (\<lambda>i. ''2024-06-01T00:00:00.000Z'')\<rparr>"
  have a: "slugify ?rt = (\<lambda>t. Inr (spec_slugify t))" by simp
  have v: "spec_slugify ''  Hello,  World_2024 -- again! '' = ''hello-world-2024-again''"
    by code_simp
  from createSlug_idempotent [OF a, of "''  Hello,  World_2024 -- again! ''"] a v
  show ?thesis by (simp only: Let_def)
qed

end
